theory Spec2Isabelle
  imports Complex_Main "HOL-Library.AList" "HOL-Library.Sublist"
begin

section \<open>The weapon: projectiles, colliders, ammunition\<close>

text \<open>
  The class \<^verbatim>\<open>Weapon\<close> is embedded as a record that is passed through every method
  and returned updated. JavaScript objects have an identity and are shared between the
  scene graph, the collider maps and the bullet list, so they live in a store
  (\<open>objects\<close>) and are named by references; a new object takes the reference
  \<open>nextRef\<close>. Numbers are JavaScript doubles; they are modelled by the reals, so
  rounding is not part of this model. Sounds, animations, materials, rotations and the
  debug wireframes are left out: no method modelled here reads them.
\<close>

type_synonym vec3 = "real \<times> real \<times> real"

type_synonym ref = nat

subsection \<open>Vector arithmetic of the rendering library\<close>

definition addV :: "vec3 \<Rightarrow> vec3 \<Rightarrow> vec3" where
  "addV a b = (case a of (ax, ay, az) \<Rightarrow> case b of (bx, by, bz) \<Rightarrow> (ax + bx, ay + by, az + bz))"

definition subVectors :: "vec3 \<Rightarrow> vec3 \<Rightarrow> vec3" where
  "subVectors a b = (case a of (ax, ay, az) \<Rightarrow> case b of (bx, by, bz) \<Rightarrow> (ax - bx, ay - by, az - bz))"

definition multiplyScalar :: "vec3 \<Rightarrow> real \<Rightarrow> vec3" where
  "multiplyScalar a s = (case a of (ax, ay, az) \<Rightarrow> (ax * s, ay * s, az * s))"

definition lengthV :: "vec3 \<Rightarrow> real" where
  "lengthV a = (case a of (ax, ay, az) \<Rightarrow> sqrt (ax * ax + ay * ay + az * az))"

text \<open>\<^verbatim>\<open>normalize()\<close> divides by \<^verbatim>\<open>length() || 1\<close>.\<close>

definition normalizeV :: "vec3 \<Rightarrow> vec3" where
  "normalizeV a = (case a of (ax, ay, az) \<Rightarrow>
     (let l = (if lengthV a = 0 then 1 else lengthV a) in (ax / l, ay / l, az / l)))"

subsection \<open>Objects, bullets and the weapon state\<close>

record object3d =
  position :: vec3
  boxSize :: vec3
  visible :: bool
  isMesh :: bool
  isWeapon :: bool
  isBullet :: bool
  isBulletCollider :: bool
  isTargetCollider :: bool
  isTarget :: bool
  inWeaponModel :: bool
  hasParent :: bool
  parentTarget :: "ref option"
  parentBullet :: "ref option"

text \<open>
  \<open>inWeaponModel\<close> is the outcome of the walk up the parent chain in
  \<^verbatim>\<open>isWeaponMesh\<close>: some ancestor is \<^verbatim>\<open>this.model\<close>. \<open>hasParent\<close> says that
  \<^verbatim>\<open>parent\<close> is not null: the object is attached to the scene or to a group; a new
  object has no parent.
\<close>

definition newObject :: object3d where
  "newObject = \<lparr>position = (0, 0, 0), boxSize = (0, 0, 0), visible = True, isMesh = True,
     isWeapon = False, isBullet = False, isBulletCollider = False, isTargetCollider = False,
     isTarget = False, inWeaponModel = False, hasParent = False, parentTarget = None,
     parentBullet = None\<rparr>"

record bullet =
  mesh :: ref
  velocity :: vec3
  life :: real
  startTime :: real

record ray =
  origin :: vec3
  direction :: vec3
  near :: real
  far :: real

record intersection =
  object :: ref
  point :: vec3
  distance :: real

text \<open>
  What a method reads from outside the weapon: the ray caster of the rendering
  library (\<^verbatim>\<open>Raycaster.intersectObjects\<close>, which answers with the intersections
  nearest first), the muzzle position and view direction derived from the camera, and
  the clock.
\<close>

record env =
  intersectObjects :: "ray \<Rightarrow> (ref \<times> object3d) list \<Rightarrow> bool \<Rightarrow> intersection list"
  getGunMuzzlePosition :: vec3
  getWorldDirection :: vec3
  performance_now :: real

record weapon =
  objects :: "ref \<Rightarrow> object3d"
  nextRef :: ref
  scene :: "ref list"
  activeBullets :: "bullet list"
  bulletSpeed :: real
  bulletLifetime :: real
  maxBulletTrails :: nat
  isLoaded :: bool
  isShooting :: bool
  fireRate :: real
  shootTimer :: real
  magAmmo :: int
  maxAmmo :: int
  totalAmmo :: int
  debugMode :: bool
  bulletColliders :: "ref \<rightharpoonup> ref"
  targetColliders :: "(ref \<times> ref) list"
  scanCounter :: nat
  targetHits :: "(ref \<times> intersection) list"

text \<open>
  \<open>scene\<close> lists the nodes that \<^verbatim>\<open>scene.traverse\<close> visits, in its order;
  \<open>targetColliders\<close> keeps the insertion order of the JavaScript \<^verbatim>\<open>Map\<close>;
  \<open>targetHits\<close> records the calls of a target's \<^verbatim>\<open>userData.onHit\<close>
  callback, which belongs to the target manager.
\<close>

definition constructor :: weapon where
  "constructor = \<lparr>objects = (\<lambda>_. newObject), nextRef = 0, scene = [], activeBullets = [],
     bulletSpeed = 100, bulletLifetime = 3, maxBulletTrails = 50, isLoaded = False,
     isShooting = False, fireRate = 1 / 10, shootTimer = 0, magAmmo = 30, maxAmmo = 30,
     totalAmmo = 1200, debugMode = False, bulletColliders = Map.empty, targetColliders = [],
     scanCounter = 0, targetHits = []\<rparr>"

subsection \<open>Ammunition\<close>

definition reload :: "weapon \<Rightarrow> weapon" where
  "reload w =
     (if magAmmo w \<ge> maxAmmo w \<or> totalAmmo w \<le> 0 then w
      else let bulletsNeeded = maxAmmo w - magAmmo w;
               bulletsToReload = min bulletsNeeded (totalAmmo w)
           in w\<lparr>magAmmo := magAmmo w + bulletsToReload,
                totalAmmo := totalAmmo w - bulletsToReload\<rparr>)"

definition addAmmo :: "int \<Rightarrow> weapon \<Rightarrow> weapon" where
  "addAmmo amount w = w\<lparr>totalAmmo := min (totalAmmo w + amount) 300\<rparr>"

definition getAmmoCount :: "weapon \<Rightarrow> int \<times> int" where
  "getAmmoCount w = (magAmmo w, totalAmmo w)"

subsection \<open>Scene graph and collider maps\<close>

definition alloc :: "object3d \<Rightarrow> weapon \<Rightarrow> ref \<times> weapon" where
  "alloc obj w =
     (nextRef w, w\<lparr>objects := (objects w)(nextRef w := obj), nextRef := Suc (nextRef w)\<rparr>)"

text \<open>
  \<^verbatim>\<open>Object3D.add\<close> takes the child out of its parent before appending it and makes
  the scene its parent; \<^verbatim>\<open>Object3D.remove\<close> does nothing to an object that is not
  among the children, and clears the parent of one that is.
\<close>

definition sceneAdd :: "ref \<Rightarrow> weapon \<Rightarrow> weapon" where
  "sceneAdd r w = w\<lparr>scene := removeAll r (scene w) @ [r],
                    objects := (objects w)(r := (objects w r)\<lparr>hasParent := True\<rparr>)\<rparr>"

definition sceneRemove :: "ref \<Rightarrow> weapon \<Rightarrow> weapon" where
  "sceneRemove r w =
     (if r \<in> set (scene w)
      then w\<lparr>scene := removeAll r (scene w),
             objects := (objects w)(r := (objects w r)\<lparr>hasParent := False\<rparr>)\<rparr>
      else w)"

definition setPosition :: "ref \<Rightarrow> vec3 \<Rightarrow> weapon \<Rightarrow> weapon" where
  "setPosition r p w = w\<lparr>objects := (objects w)(r := (objects w r)\<lparr>position := p\<rparr>)\<rparr>"

definition createBulletCollider :: "ref \<Rightarrow> weapon \<Rightarrow> ref \<times> weapon" where
  "createBulletCollider bulletMesh w =
     (case alloc (newObject\<lparr>boxSize := (5, 5, 5), isBulletCollider := True,
                    parentBullet := Some bulletMesh,
                    position := position (objects w bulletMesh)\<rparr>) w of
        (collider, w1) \<Rightarrow>
          let w2 = sceneAdd collider w1
          in (collider, w2\<lparr>bulletColliders := (bulletColliders w2)(bulletMesh \<mapsto> collider)\<rparr>))"

definition removeBulletCollider :: "ref \<Rightarrow> weapon \<Rightarrow> weapon" where
  "removeBulletCollider bulletMesh w =
     (case bulletColliders w bulletMesh of
        Some collider \<Rightarrow>
          (sceneRemove collider w)\<lparr>bulletColliders := (bulletColliders w)(bulletMesh := None)\<rparr>
      | None \<Rightarrow> w)"

definition createTargetCollider :: "ref \<Rightarrow> vec3 \<Rightarrow> weapon \<Rightarrow> ref \<times> weapon" where
  "createTargetCollider target colliderSize w =
     (case alloc (newObject\<lparr>boxSize := colliderSize, isTargetCollider := True,
                    parentTarget := Some target,
                    position := addV (position (objects w target)) (0, 1, 0)\<rparr>) w of
        (collider, w1) \<Rightarrow>
          let w2 = sceneAdd collider w1
          in (collider, w2\<lparr>targetColliders := AList.update target collider (targetColliders w2)\<rparr>))"

definition removeTargetCollider :: "ref \<Rightarrow> weapon \<Rightarrow> weapon" where
  "removeTargetCollider target w =
     (case map_of (targetColliders w) target of
        Some collider \<Rightarrow>
          (sceneRemove collider w)\<lparr>targetColliders := AList.delete target (targetColliders w)\<rparr>
      | None \<Rightarrow> w)"

definition registerTarget :: "ref \<Rightarrow> vec3 \<Rightarrow> weapon \<Rightarrow> weapon" where
  "registerTarget target colliderSize w =
     snd (createTargetCollider target colliderSize
       (w\<lparr>objects := (objects w)(target := (objects w target)\<lparr>isTarget := True\<rparr>)\<rparr>))"

definition unregisterTarget :: "ref \<Rightarrow> weapon \<Rightarrow> weapon" where
  "unregisterTarget target w =
     (let w1 = removeTargetCollider target w
      in w1\<lparr>objects := (objects w1)(target := (objects w1 target)\<lparr>isTarget := False\<rparr>)\<rparr>)"

text \<open>
  \<^verbatim>\<open>scene.traverse\<close> walks the children present when it starts; the colliders
  added on the way are not visited.
\<close>

definition scanForNewTargets :: "weapon \<Rightarrow> weapon" where
  "scanForNewTargets w =
     fold (\<lambda>child w'.
        if isTarget (objects w' child)
        then (if map_of (targetColliders w') child \<noteq> None then w'
              else snd (createTargetCollider child (2, 2, 4) w'))
        else w') (scene w) w"

definition updateTargetColliders :: "weapon \<Rightarrow> weapon" where
  "updateTargetColliders w =
     fold (\<lambda>(target, collider) w'.
        if hasParent (objects w' target)
        then setPosition collider (addV (position (objects w' target)) (0, 1, 0)) w'
        else removeTargetCollider target w') (targetColliders w) w"

subsection \<open>Firing\<close>

definition createBulletTrail :: "env \<Rightarrow> vec3 \<Rightarrow> vec3 \<Rightarrow> weapon \<Rightarrow> bullet \<times> weapon" where
  "createBulletTrail e startPos dir w =
     (case alloc (newObject\<lparr>isBullet := True, position := startPos\<rparr>) w of
        (bulletMesh, w1) \<Rightarrow>
          (case createBulletCollider bulletMesh (sceneAdd bulletMesh w1) of
             (collider, w3) \<Rightarrow>
               let bulletObj = \<lparr>mesh = bulletMesh,
                                velocity = multiplyScalar dir (bulletSpeed w3),
                                life = bulletLifetime w3,
                                startTime = performance_now e\<rparr>;
                   w4 = w3\<lparr>activeBullets := activeBullets w3 @ [bulletObj]\<rparr>
               in (bulletObj,
                   if length (activeBullets w4) > maxBulletTrails w4
                   then (case activeBullets w4 of
                           oldBullet # rest \<Rightarrow>
                             sceneRemove (mesh oldBullet) (w4\<lparr>activeBullets := rest\<rparr>)
                         | [] \<Rightarrow> w4)
                   else w4)))"

definition shoot :: "env \<Rightarrow> weapon \<Rightarrow> bool \<times> weapon" where
  "shoot e w =
     (if magAmmo w \<le> 0 then (False, reload w)
      else let w1 = w\<lparr>magAmmo := magAmmo w - 1\<rparr>;
               muzzlePos = getGunMuzzlePosition e;
               shootDirection = normalizeV (getWorldDirection e)
           in (True, snd (createBulletTrail e muzzlePos shootDirection w1)))"

definition startShooting :: "weapon \<Rightarrow> weapon" where
  "startShooting w = (if \<not> isLoaded w then w else w\<lparr>isShooting := True, shootTimer := 0\<rparr>)"

definition stopShooting :: "weapon \<Rightarrow> weapon" where
  "stopShooting w = w\<lparr>isShooting := False\<rparr>"

subsection \<open>Flight and collision\<close>

datatype collision = Miss | HitTarget intersection | HitEnvironment intersection

text \<open>
  \<^verbatim>\<open>checkBulletColliderCollision\<close> answers \<^verbatim>\<open>true\<close> exactly when the outcome
  below is not \<open>Miss\<close>; the outcome also says which of its two branches answered.
\<close>

definition isWeaponMesh :: "object3d \<Rightarrow> bool" where
  "isWeaponMesh m = (isWeapon m \<or> isBullet m \<or> inWeaponModel m)"

definition Weapon_onTargetHit :: "ref \<Rightarrow> intersection \<Rightarrow> weapon \<Rightarrow> weapon" where
  "Weapon_onTargetHit target hitInfo w = w\<lparr>targetHits := targetHits w @ [(target, hitInfo)]\<rparr>"

text \<open>\<^verbatim>\<open>indexOf\<close> followed by \<^verbatim>\<open>splice\<close>: the bullet object itself leaves the list.\<close>

fun spliceBullet :: "ref \<Rightarrow> bullet list \<Rightarrow> bullet list" where
  "spliceBullet m [] = []"
| "spliceBullet m (b # bs) = (if mesh b = m then bs else b # spliceBullet m bs)"

definition removeHitBullet :: "bullet \<Rightarrow> weapon \<Rightarrow> weapon" where
  "removeHitBullet b w =
     (let w1 = sceneRemove (mesh b) (removeBulletCollider (mesh b) w)
      in w1\<lparr>activeBullets := spliceBullet (mesh b) (activeBullets w1)\<rparr>)"

definition sweptRay :: "vec3 \<Rightarrow> vec3 \<Rightarrow> ray" where
  "sweptRay prevPosition currentPosition =
     (let d = subVectors currentPosition prevPosition
      in \<lparr>origin = prevPosition, direction = normalizeV d, near = 0, far = lengthV d\<rparr>)"

definition visibleTargetColliders :: "weapon \<Rightarrow> (ref \<times> object3d) list" where
  "visibleTargetColliders w =
     map (\<lambda>c. (c, objects w c))
       (filter (\<lambda>c. visible (objects w c)) (map snd (targetColliders w)))"

definition environmentTargets :: "weapon \<Rightarrow> (ref \<times> object3d) list" where
  "environmentTargets w =
     map (\<lambda>c. (c, objects w c))
       (filter (\<lambda>c. let child = objects w c in
                  isMesh child \<and> \<not> isWeaponMesh child \<and> \<not> isBullet child
                  \<and> \<not> isBulletCollider child \<and> \<not> isTargetCollider child
                  \<and> \<not> isTarget child) (scene w))"

definition checkBulletColliderCollision ::
    "env \<Rightarrow> weapon \<Rightarrow> bullet \<Rightarrow> vec3 \<Rightarrow> collision \<times> weapon" where
  "checkBulletColliderCollision e w b prevPosition =
     (case bulletColliders w (mesh b) of
        None \<Rightarrow> (Miss, w)
      | Some bulletCollider \<Rightarrow>
          if lengthV (subVectors (position (objects w (mesh b))) prevPosition) = 0
          then (Miss, w)
          else
            let raycaster = sweptRay prevPosition (position (objects w (mesh b)))
            in (case intersectObjects e raycaster (visibleTargetColliders w) False of
                  hit # _ \<Rightarrow>
                    let w1 = setPosition bulletCollider (point hit)
                               (setPosition (mesh b) (point hit) w);
                        w2 = (case parentTarget (objects w1 (object hit)) of
                                Some target \<Rightarrow>
                                  if isTarget (objects w1 target)
                                  then Weapon_onTargetHit target hit w1 else w1
                              | None \<Rightarrow> w1)
                    in (HitTarget hit, removeHitBullet b w2)
                | [] \<Rightarrow>
                    (case intersectObjects e raycaster (environmentTargets w) True of
                       hit # _ \<Rightarrow>
                         let w1 = setPosition bulletCollider (point hit)
                                    (setPosition (mesh b) (point hit) w)
                         in (HitEnvironment hit, removeHitBullet b w1)
                     | [] \<Rightarrow> (Miss, w))))"

text \<open>
  One round of the loop of \<^verbatim>\<open>updateBullets\<close>, for the index \<open>i\<close>:
  \<open>advanceBullet\<close> moves the mesh and its collider, then the collision test, the
  lifetime and the expiry follow. The loop runs from the last index down to 0 and
  removes bullets while it runs; \<^verbatim>\<open>splice(i, 1)\<close> on an index past the end removes
  nothing.
\<close>

definition advanceBullet :: "real \<Rightarrow> bullet \<Rightarrow> weapon \<Rightarrow> weapon" where
  "advanceBullet deltaTime b w =
     (let w1 = setPosition (mesh b)
                 (addV (position (objects w (mesh b))) (multiplyScalar (velocity b) deltaTime)) w
      in case bulletColliders w1 (mesh b) of
           Some collider \<Rightarrow> setPosition collider (position (objects w1 (mesh b))) w1
         | None \<Rightarrow> w1)"

definition updateBullet :: "env \<Rightarrow> real \<Rightarrow> nat \<Rightarrow> weapon \<Rightarrow> weapon" where
  "updateBullet e deltaTime i w =
     (if i < length (activeBullets w) then
        let b = activeBullets w ! i;
            prevPosition = position (objects w (mesh b));
            w2 = advanceBullet deltaTime b w;
            w3 = snd (checkBulletColliderCollision e w2 b prevPosition);
            w4 = w3\<lparr>activeBullets :=
                     map (\<lambda>x. if mesh x = mesh b then x\<lparr>life := life b - deltaTime\<rparr> else x)
                       (activeBullets w3)\<rparr>
        in if life b - deltaTime \<le> 0
           then let w5 = sceneRemove (mesh b) (removeBulletCollider (mesh b) w4)
                in w5\<lparr>activeBullets := take i (activeBullets w5) @ drop (Suc i) (activeBullets w5)\<rparr>
           else w4
      else w)"

fun updateBulletsFrom :: "env \<Rightarrow> real \<Rightarrow> nat \<Rightarrow> weapon \<Rightarrow> weapon" where
  "updateBulletsFrom e deltaTime 0 w = w"
| "updateBulletsFrom e deltaTime (Suc i) w =
     updateBulletsFrom e deltaTime i (updateBullet e deltaTime i w)"

definition updateBullets :: "env \<Rightarrow> real \<Rightarrow> weapon \<Rightarrow> weapon" where
  "updateBullets e deltaTime w = updateBulletsFrom e deltaTime (length (activeBullets w)) w"

definition update :: "env \<Rightarrow> real \<Rightarrow> weapon \<Rightarrow> weapon" where
  "update e deltaTime w =
     (if \<not> isLoaded w then w
      else
        let w1 = w\<lparr>scanCounter := scanCounter w + 1\<rparr>;
            w2 = (if scanCounter w1 mod 60 = 0 then scanForNewTargets w1 else w1);
            w3 = updateBullets e deltaTime w2;
            w4 = updateTargetColliders w3;
            w5 = (if isShooting w4 \<and> shootTimer w4 \<le> 0
                  then (case shoot e w4 of
                          (fired, w') \<Rightarrow> if fired then w'\<lparr>shootTimer := fireRate w'\<rparr> else w')
                  else w4)
        in if shootTimer w5 > 0 then w5\<lparr>shootTimer := shootTimer w5 - deltaTime\<rparr> else w5)"

section \<open>Predicates used by the theorems\<close>

text \<open>
  References are handed out in increasing order, so a bullet is older than another exactly
  when its mesh has the smaller reference. \<open>inCreationOrder\<close> says that the bullet list
  is ordered from the oldest to the newest and that no bullet carries a reference that is
  still to be handed out. It holds for a new weapon and every tick keeps it (shown below).
\<close>

definition inCreationOrder :: "weapon \<Rightarrow> bool" where
  "inCreationOrder w =
     (sorted_wrt (<) (map mesh (activeBullets w)) \<and> list_all (\<lambda>b. mesh b < nextRef w) (activeBullets w))"

text \<open>
  \<open>onlyRemoves w w'\<close>: from \<open>w\<close> to \<open>w'\<close> bullets were at most taken out of the list
  (none added, none reordered), and the ammunition, the timer and the settings are as they
  were.
\<close>

definition onlyRemoves :: "weapon \<Rightarrow> weapon \<Rightarrow> bool" where
  "onlyRemoves w w' =
     (subseq (map mesh (activeBullets w')) (map mesh (activeBullets w))
      \<and> nextRef w \<le> nextRef w' \<and> magAmmo w' = magAmmo w \<and> totalAmmo w' = totalAmmo w
      \<and> maxAmmo w' = maxAmmo w \<and> fireRate w' = fireRate w \<and> shootTimer w' = shootTimer w
      \<and> isShooting w' = isShooting w \<and> isLoaded w' = isLoaded w
      \<and> maxBulletTrails w' = maxBulletTrails w)"

text \<open>The part of \<^verbatim>\<open>update\<close> that runs before the shooting is handled.\<close>

definition beforeShooting :: "env \<Rightarrow> real \<Rightarrow> weapon \<Rightarrow> weapon" where
  "beforeShooting e deltaTime w =
     (let w1 = w\<lparr>scanCounter := scanCounter w + 1\<rparr>;
          w2 = (if scanCounter w1 mod 60 = 0 then scanForNewTargets w1 else w1)
      in updateTargetColliders (updateBullets e deltaTime w2))"

text \<open>
  Three properties of the states the weapon goes through. \<open>haveColliders\<close>: every bullet
  in flight has its collision box in \<^verbatim>\<open>bulletColliders\<close>. \<open>collidersVisible\<close>: every
  registered target collider is an allocated object with \<^verbatim>\<open>visible\<close> set, which is what
  the collision test asks of a collider before it considers it. \<open>keepsColliders w w'\<close> is
  the frame condition under which \<open>collidersVisible\<close> is carried from \<open>w\<close> to \<open>w'\<close>: no
  new target collider, no reference handed back, and no allocated object shown or hidden.
  \<open>wellFormed\<close> collects the three properties the theorems below assume.
\<close>

definition haveColliders :: "weapon \<Rightarrow> bool" where
  "haveColliders w = (\<forall>b \<in> set (activeBullets w). bulletColliders w (mesh b) \<noteq> None)"

definition collidersVisible :: "weapon \<Rightarrow> bool" where
  "collidersVisible w =
     (\<forall>c \<in> snd ` set (targetColliders w). c < nextRef w \<and> visible (objects w c))"

definition keepsColliders :: "weapon \<Rightarrow> weapon \<Rightarrow> bool" where
  "keepsColliders w w' =
     (snd ` set (targetColliders w') \<subseteq> snd ` set (targetColliders w)
      \<and> nextRef w \<le> nextRef w'
      \<and> (\<forall>r < nextRef w. visible (objects w' r) = visible (objects w r)))"

definition wellFormed :: "weapon \<Rightarrow> bool" where
  "wellFormed w = (inCreationOrder w \<and> haveColliders w \<and> collidersVisible w)"

text \<open>
  \<open>bulletRay deltaTime w b\<close> is the ray that the collision test of the bullet \<open>b\<close> casts in
  a tick of length \<open>deltaTime\<close> that starts in \<open>w\<close>: from the position of its mesh to
  that position moved by velocity times \<open>deltaTime\<close>.
\<close>

definition bulletRay :: "real \<Rightarrow> weapon \<Rightarrow> bullet \<Rightarrow> ray" where
  "bulletRay deltaTime w b =
     sweptRay (position (objects w (mesh b)))
       (addV (position (objects w (mesh b))) (multiplyScalar (velocity b) deltaTime))"

text \<open>
  \<open>refsApart\<close>: the meshes of the bullets in flight, their colliders and the target
  colliders are different objects, and the colliders are allocated. It holds for a new
  weapon and is kept by \<^verbatim>\<open>update\<close>, \<^verbatim>\<open>startShooting\<close> and \<^verbatim>\<open>registerTarget\<close>
  (shown below), since each of these objects is created by its own \<^verbatim>\<open>new THREE.Mesh\<close>.
\<close>

definition refsApart :: "weapon \<Rightarrow> bool" where
  "refsApart w =
     (\<forall>b \<in> set (activeBullets w).
        mesh b \<notin> snd ` set (targetColliders w)
        \<and> (case bulletColliders w (mesh b) of
             None \<Rightarrow> True
           | Some c \<Rightarrow> c < nextRef w \<and> c \<notin> mesh ` set (activeBullets w)
                       \<and> c \<notin> snd ` set (targetColliders w)))"

text \<open>
  \<open>touchesOnly S v v'\<close> bounds what a part of the bullet loop does to the state: it
  changes no object outside \<open>S\<close>, and of no object the visibility, the target flag or
  the parent target; the target colliders and the allocator stay; a bullet collider is at
  most unregistered; hits are at most added to the record.
\<close>

definition touchesOnly :: "ref set \<Rightarrow> weapon \<Rightarrow> weapon \<Rightarrow> bool" where
  "touchesOnly S v v' =
     ((\<forall>r. visible (objects v' r) = visible (objects v r)
           \<and> isTarget (objects v' r) = isTarget (objects v r)
           \<and> parentTarget (objects v' r) = parentTarget (objects v r))
      \<and> (\<forall>r. r \<notin> S \<longrightarrow> objects v' r = objects v r)
      \<and> targetColliders v' = targetColliders v \<and> nextRef v' = nextRef v
      \<and> (\<forall>k. bulletColliders v' k = bulletColliders v k \<or> bulletColliders v' k = None)
      \<and> (\<exists>hs. targetHits v' = targetHits v @ hs))"

text \<open>The first step of \<^verbatim>\<open>update\<close>: the counter and, every 60th tick, the scan.\<close>

definition scanStep :: "weapon \<Rightarrow> weapon" where
  "scanStep w =
     (let w1 = w\<lparr>scanCounter := scanCounter w + 1\<rparr>
      in if scanCounter w1 mod 60 = 0 then scanForNewTargets w1 else w1)"

section \<open>Worked examples: states and inputs\<close>

text \<open>
  A ray caster for the examples. It handles rays that run along the positive x axis and
  boxes aligned with the axes: a box is met where the ray enters its near face, if that
  point lies within the range of the ray and within the box in y and z.
\<close>

definition xAxisCaster :: "ray \<Rightarrow> (ref \<times> object3d) list \<Rightarrow> bool \<Rightarrow> intersection list" where
  "xAxisCaster r objs recursive =
     sort_key distance
       (map (\<lambda>(i, ob). case origin r of (ox, oy, oz) \<Rightarrow> case position ob of (px, py, pz) \<Rightarrow>
               case boxSize ob of (sx, sy, sz) \<Rightarrow>
                 \<lparr>object = i, point = (px - sx / 2, oy, oz), distance = px - sx / 2 - ox\<rparr>)
          (filter (\<lambda>(i, ob). case origin r of (ox, oy, oz) \<Rightarrow> case position ob of (px, py, pz) \<Rightarrow>
               case boxSize ob of (sx, sy, sz) \<Rightarrow>
                 direction r = (1, 0, 0) \<and> near r \<le> px - sx / 2 - ox \<and> px - sx / 2 - ox \<le> far r
                 \<and> \<bar>oy - py\<bar> \<le> sy / 2 \<and> \<bar>oz - pz\<bar> \<le> sz / 2) objs))"

text \<open>
  A shooting range: one bullet at the origin flying along x at 100 units per second, its
  collider, one target with a thin collider (0.1 wide) centred at x = 1, and a wall of the
  scenery at x = 0.5, nearer to the bullet than the target.
\<close>

definition rangeEnv :: env where
  "rangeEnv = \<lparr>intersectObjects = xAxisCaster, getGunMuzzlePosition = (0, 0, 0),
     getWorldDirection = (1, 0, 0), performance_now = 0\<rparr>"

definition rangeObjects :: "ref \<Rightarrow> object3d" where
  "rangeObjects =
     (\<lambda>_. newObject)
       (10 := newObject\<lparr>isBullet := True, hasParent := True\<rparr>,
        11 := newObject\<lparr>boxSize := (5, 5, 5), isBulletCollider := True, hasParent := True,
               parentBullet := Some 10\<rparr>,
        12 := newObject\<lparr>position := (1, - 1, 0), isMesh := False, isTarget := True,
               hasParent := True\<rparr>,
        13 := newObject\<lparr>position := (1, 0, 0), boxSize := (1 / 10, 2, 4),
               isTargetCollider := True, hasParent := True, parentTarget := Some 12\<rparr>,
        14 := newObject\<lparr>position := (1 / 2, 0, 0), boxSize := (1 / 10, 2, 2),
               hasParent := True\<rparr>)"

definition rangeBullet :: bullet where
  "rangeBullet = \<lparr>mesh = 10, velocity = (100, 0, 0), life = 3, startTime = 0\<rparr>"

definition rangeScene :: weapon where
  "rangeScene = constructor\<lparr>objects := rangeObjects, nextRef := 15, scene := [10, 11, 12, 13, 14],
     activeBullets := [rangeBullet],
     isLoaded := True, bulletColliders := [10 \<mapsto> 11], targetColliders := [(12, 13)]\<rparr>"

definition rangeMoved :: weapon where
  "rangeMoved = advanceBullet (1 / 50) rangeBullet rangeScene"

text \<open>The same ray caster, except that it sees nothing of the scenery.\<close>

definition blindEnv :: env where
  "blindEnv = rangeEnv\<lparr>intersectObjects :=
     (\<lambda>r objs recursive. if recursive then [] else xAxisCaster r objs recursive)\<rparr>"

text \<open>A weapon with 50 bullets in flight, each with its collider: the cap is reached.\<close>

definition fullMagazine :: weapon where
  "fullMagazine = constructor\<lparr>
     objects := (\<lambda>r. if 10 \<le> r \<and> r < 110 then newObject\<lparr>hasParent := True\<rparr> else newObject),
     isLoaded := True, nextRef := 110, scene := [10..<110],
     activeBullets :=
       map (\<lambda>i. \<lparr>mesh = 2 * i + 10, velocity = (0, 0, - 100), life = 3, startTime = 0\<rparr>) [0..<50],
     bulletColliders := (\<lambda>m. if 10 \<le> m \<and> m < 110 \<and> even m then Some (Suc m) else None)\<rparr>"

text \<open>A new weapon once its models are loaded, and two trigger presses 16 ms apart.\<close>

definition loadedWeapon :: weapon where
  "loadedWeapon = constructor\<lparr>isLoaded := True\<rparr>"

definition firstPress :: weapon where
  "firstPress = update rangeEnv (2 / 125) (startShooting loadedWeapon)"

definition secondPress :: weapon where
  "secondPress = update rangeEnv (2 / 125) (startShooting firstPress)"

definition emptyMagazine :: weapon where
  "emptyMagazine = (startShooting loadedWeapon)\<lparr>magAmmo := 0\<rparr>"

section \<open>The client: authoritative events over the local targets\<close>

text \<open>
  scene.js keeps the target manager, the pending snapshot, the score and the remote players
  in module variables; they are the fields of \<open>client\<close>. \<open>now\<close> and \<open>timers\<close> stand
  for the clock and the callbacks scheduled with \<^verbatim>\<open>setTimeout\<close>, each with its due time in
  milliseconds; \<open>weaponAvailable\<close> is the test
  \<^verbatim>\<open>window.weapon && window.weapon.scanForNewTargets\<close>. A target is the \<^verbatim>\<open>userData\<close> of its scene object together with the
  meshes that \<^verbatim>\<open>traverse\<close> visits. Identifiers are strings. Building a remote player
  is taken to succeed (the handlers catch and log its failure).
\<close>

record material =
  opacity :: real
  transparent :: bool

record child =
  childIsMesh :: bool
  childMaterial :: "material option"
  originalOpacity :: "real option"

record target =
  targetId :: string
  targetPosition :: vec3
  targetScale :: real
  targetRotation :: "vec3 option"
  health :: int
  maxHealth :: "int option"
  points :: int
  locallyDestroyed :: bool
  children :: "child list"
  hitEffects :: nat

record targetManager =
  isModelLoaded :: bool
  model :: "child list"
  targets :: "target list"


record destroyData =
  dd_targetId :: string
  dd_playerId :: string
  dd_points :: int

record targetData =
  td_id :: string
  td_position :: vec3
  td_scale :: "real option"
  td_health :: int
  td_maxHealth :: "int option"
  td_points :: int
  td_rotation :: "vec3 option"
  td_isAlive :: bool

record playerData =
  pd_id :: string
  pd_position :: vec3

record gameState =
  gs_players :: "playerData list"
  gs_targets :: "targetData list"

text \<open>
  The callbacks that scene.js hands to \<^verbatim>\<open>setTimeout\<close>: the retry of
  \<^verbatim>\<open>processGameState\<close>, the rescan 100 ms after a spawn, and after a snapshot the
  scan at 500 ms (which schedules the debug output 500 ms later), the scan at 2 s and the
  activation of the debug mode at 2 s.
\<close>

datatype callback =
  ProcessGameState | SpawnScan | SecondaryScan | PostScanDebug | TertiaryScan | ActivateDebug

record client =
  targetManager :: "targetManager option"
  pendingGameState :: "gameState option"
  now :: nat
  timers :: "(nat \<times> callback) list"
  score :: int
  playerId :: string
  remotePlayers :: "(string \<times> playerData) list"
  weaponAvailable :: bool

definition setTimeout :: "callback \<Rightarrow> nat \<Rightarrow> client \<Rightarrow> client" where
  "setTimeout cb delay s = s\<lparr>timers := timers s @ [(now s + delay, cb)]\<rparr>"

subsection \<open>The target manager\<close>

text \<open>
  The class \<^verbatim>\<open>TargetManager\<close> (targets.js) is not among the sources; scene.js calls five
  of its methods. Each is modelled below from what the specification and the calling code
  say about it.
\<close>

text \<open>
  Modelled from the spec: \<^verbatim>\<open>createTarget(position, options)\<close> of targets.js is
  missing. The specification has a target created "as if newly spawned" with the pose,
  health, point value and identifier it is given, alive and not locally destroyed, and
  the manager owns the list of targets. scene.js tests the result before using it and
  waits for \<^verbatim>\<open>isModelLoaded\<close> before creating targets, so the model answers with no
  target while the visual model is not loaded.
\<close>

definition createTarget ::
    "vec3 \<Rightarrow> real \<Rightarrow> int \<Rightarrow> int \<Rightarrow> vec3 option \<Rightarrow> string \<Rightarrow> targetManager
     \<Rightarrow> target option \<times> targetManager" where
  "createTarget pos sc h pts rot tid tm =
     (if \<not> isModelLoaded tm then (None, tm)
      else let t = \<lparr>targetId = tid, targetPosition = pos, targetScale = sc, targetRotation = rot,
                      health = h, maxHealth = Some h, points = pts, locallyDestroyed = False,
                      children = model tm, hitEffects = 0\<rparr>
           in (Some t, tm\<lparr>targets := targets tm @ [t]\<rparr>))"

text \<open>
  Modelled from the spec: \<^verbatim>\<open>clearAllTargets()\<close> of targets.js is missing. The
  specification: "unconditionally clear all local targets and colliders".
\<close>

definition clearAllTargets :: "targetManager \<Rightarrow> targetManager" where
  "clearAllTargets tm = tm\<lparr>targets := []\<rparr>"

text \<open>
  Modelled from the spec: \<^verbatim>\<open>destroyTargetById(id, sendNetworkEvent)\<close> of targets.js is
  missing. The specification: "remove target by identifier if present", and destroying "an
  already-absent identifier is a silent no-op"; scene.js reads the result as "was
  destroyed". After the call no target carries the identifier. Awarding points is left to
  the caller, as the specification has it.
\<close>

definition destroyTargetById :: "string \<Rightarrow> bool \<Rightarrow> targetManager \<Rightarrow> bool \<times> targetManager" where
  "destroyTargetById tid sendNetworkEvent tm =
     (if tid \<in> targetId ` set (targets tm)
      then (True, tm\<lparr>targets := filter (\<lambda>t. targetId t \<noteq> tid) (targets tm)\<rparr>)
      else (False, tm))"


text \<open>
  Modelled from the spec: \<^verbatim>\<open>getTargetCount()\<close> of targets.js is missing; the
  specification lists "target count" among the query methods.
\<close>

definition getTargetCount :: "targetManager \<Rightarrow> nat" where
  "getTargetCount tm = length (targets tm)"

subsection \<open>Handlers of scene.js\<close>




definition onTargetDestroyed :: "destroyData \<Rightarrow> client \<Rightarrow> client" where
  "onTargetDestroyed destroyData s =
     (case targetManager s of
        None \<Rightarrow> s
      | Some tm \<Rightarrow>
          (case destroyTargetById (dd_targetId destroyData) False tm of
             (wasDestroyed, tm') \<Rightarrow>
               let s1 = s\<lparr>targetManager := Some tm'\<rparr>
               in if wasDestroyed \<and> dd_playerId destroyData = playerId s
                  then s1\<lparr>score := score s1 + dd_points destroyData\<rparr>
                  else s1))"

text \<open>
  The handlers assign \<^verbatim>\<open>userData\<close> of the object that \<^verbatim>\<open>createTarget\<close> returned, which
  is the last one of the manager's list.
\<close>

definition setUserData :: "(target \<Rightarrow> target) \<Rightarrow> targetManager \<Rightarrow> targetManager" where
  "setUserData f tm =
     (case rev (targets tm) of
        [] \<Rightarrow> tm
      | t # before \<Rightarrow> tm\<lparr>targets := rev before @ [f t]\<rparr>)"

text \<open>\<^verbatim>\<open>value || fallback\<close> on a number that may be missing.\<close>

definition orElse :: "real option \<Rightarrow> real \<Rightarrow> real" where
  "orElse v d = (case v of None \<Rightarrow> d | Some x \<Rightarrow> if x = 0 then d else x)"

definition onTargetSpawned :: "targetData \<Rightarrow> client \<Rightarrow> client" where
  "onTargetSpawned targetData s =
     (case targetManager s of
        None \<Rightarrow> s
      | Some tm \<Rightarrow>
          (case createTarget (td_position targetData) (orElse (td_scale targetData) 5)
                  (td_health targetData) (td_points targetData) (td_rotation targetData)
                  (td_id targetData) tm of
             (Some target, tm') \<Rightarrow>
               setTimeout SpawnScan 100
                 (s\<lparr>targetManager := Some (setUserData
                     (\<lambda>t. t\<lparr>targetId := td_id targetData, health := td_health targetData,
                            maxHealth := td_maxHealth targetData,
                            points := td_points targetData\<rparr>) tm')\<rparr>)
           | (None, tm') \<Rightarrow> s\<lparr>targetManager := Some tm'\<rparr>))"

definition createFromSnapshot :: "targetData \<Rightarrow> targetManager \<Rightarrow> targetManager" where
  "createFromSnapshot targetData tm =
     (if td_isAlive targetData
      then (case createTarget (td_position targetData) (orElse (td_scale targetData) 5)
                    (td_health targetData) (td_points targetData) (td_rotation targetData)
                    (td_id targetData) tm of
              (Some target, tm') \<Rightarrow>
                setUserData
                  (\<lambda>t. t\<lparr>targetId := td_id targetData, health := td_health targetData,
                         maxHealth := Some (case td_maxHealth targetData of
                                              None \<Rightarrow> td_health targetData
                                            | Some m \<Rightarrow> if m = 0 then td_health targetData else m),
                         points := td_points targetData\<rparr>) tm'
            | (None, tm') \<Rightarrow> tm')
      else tm)"

definition processGameState :: "client \<Rightarrow> client" where
  "processGameState s =
     (case pendingGameState s of
        None \<Rightarrow> s
      | Some gameState \<Rightarrow>
          (case targetManager s of
             None \<Rightarrow> setTimeout ProcessGameState 100 s
           | Some tm \<Rightarrow>
               if \<not> isModelLoaded tm then setTimeout ProcessGameState 200 s
               else
                 let s1 = s\<lparr>remotePlayers :=
                            fold (\<lambda>playerData m.
                                    if pd_id playerData \<noteq> playerId s
                                    then AList.update (pd_id playerData) playerData m else m)
                              (gs_players gameState) (remotePlayers s)\<rparr>;
                     tm1 = clearAllTargets tm;
                     s2 = (if gs_targets gameState \<noteq> []
                           then setTimeout ActivateDebug 2000
                                  (setTimeout TertiaryScan 2000
                                    (setTimeout SecondaryScan 500
                                      (s1\<lparr>targetManager :=
                                          Some (fold createFromSnapshot (gs_targets gameState) tm1)\<rparr>)))
                           else s1\<lparr>targetManager := Some tm1\<rparr>)
                 in s2\<lparr>pendingGameState := None\<rparr>))"

definition onGameStateReceived :: "gameState \<Rightarrow> client \<Rightarrow> client" where
  "onGameStateReceived gameState s = processGameState (s\<lparr>pendingGameState := Some gameState\<rparr>)"

text \<open>
  The event loop runs the pending timer that is due first (the oldest one among equals)
  and advances the clock to its due time. The scans and the debug callbacks act on the
  weapon and the console only; the scan at 500 ms, when the weapon is there, schedules
  the debug output.
\<close>

fun runCallback :: "callback \<Rightarrow> client \<Rightarrow> client" where
  "runCallback ProcessGameState s = processGameState s"
| "runCallback SecondaryScan s = (if weaponAvailable s then setTimeout PostScanDebug 500 s else s)"
| "runCallback cb s = s"

definition nextTimer :: "(nat \<times> callback) list \<Rightarrow> (nat \<times> callback) option" where
  "nextTimer ts =
     (case ts of
        [] \<Rightarrow> None
      | t # rest \<Rightarrow> Some (fold (\<lambda>x m. if fst x < fst m then x else m) rest t))"

definition fireTimer :: "client \<Rightarrow> client" where
  "fireTimer s =
     (case nextTimer (timers s) of
        None \<Rightarrow> s
      | Some (due, cb) \<Rightarrow>
          runCallback cb (s\<lparr>now := max (now s) due, timers := remove1 (due, cb) (timers s)\<rparr>))"

text \<open>What a snapshot entry and a local target say about a target.\<close>

definition serverView :: "targetData \<Rightarrow> string \<times> int \<times> int \<times> vec3" where
  "serverView d = (td_id d, td_health d, td_points d, td_position d)"

definition localView :: "target \<Rightarrow> string \<times> int \<times> int \<times> vec3" where
  "localView t = (targetId t, health t, points t, targetPosition t)"

text \<open>
  Client states for the examples: before the target manager exists; with the manager
  ready and one target that a local hit has marked destroyed (health 0, faded to opacity
  0.3); a snapshot with two alive targets and a dead one; a hit and two destroy events of
  the server.
\<close>

definition startClient :: client where
  "startClient = \<lparr>targetManager = None, pendingGameState = None, now = 0, timers = [],
     score = 0, playerId = ''p1'', remotePlayers = [], weaponAvailable = False\<rparr>"

definition fadedCat :: target where
  "fadedCat = \<lparr>targetId = ''a'', targetPosition = (0, 0, - 10), targetScale = 5,
     targetRotation = None, health = 0, maxHealth = Some 10, points = 50,
     locallyDestroyed = True,
     children = [\<lparr>childIsMesh = True,
                   childMaterial = Some \<lparr>opacity = 3 / 10, transparent = True\<rparr>,
                   originalOpacity = Some 1\<rparr>],
     hitEffects = 1\<rparr>"

definition readyClient :: client where
  "readyClient = startClient\<lparr>targetManager :=
     Some \<lparr>isModelLoaded = True, model = [], targets = [fadedCat]\<rparr>\<rparr>"

definition joinSnapshot :: gameState where
  "joinSnapshot = \<lparr>gs_players = [],
     gs_targets =
       [\<lparr>td_id = ''b'', td_position = (1, 0, 0), td_scale = None, td_health = 7,
          td_maxHealth = Some 10, td_points = 50, td_rotation = None, td_isAlive = True\<rparr>,
        \<lparr>td_id = ''c'', td_position = (2, 0, 0), td_scale = None, td_health = 0,
          td_maxHealth = Some 10, td_points = 50, td_rotation = None, td_isAlive = False\<rparr>,
        \<lparr>td_id = ''d'', td_position = (3, 0, 0), td_scale = None, td_health = 10,
          td_maxHealth = None, td_points = 20, td_rotation = None, td_isAlive = True\<rparr>]\<rparr>"


definition killByMe :: destroyData where
  "killByMe = \<lparr>dd_targetId = ''a'', dd_playerId = ''p1'', dd_points = 50\<rparr>"

definition killByOther :: destroyData where
  "killByOther = \<lparr>dd_targetId = ''a'', dd_playerId = ''p2'', dd_points = 50\<rparr>"

definition waitingClient :: client where
  "waitingClient = onGameStateReceived joinSnapshot startClient"

section \<open>Ammunition pickup\<close>

text \<open>
  C10. For every non-negative amount, \<^verbatim>\<open>addAmmo(amount)\<close> sets the reserve to
  \<open>min (totalAmmo + amount) 300\<close> and leaves the magazine as it is. A new weapon
  starts with a reserve of 1200, above the bound of 300, and a call made while the
  reserve is above 300 strictly lowers it.
\<close>

theorem addAmmo_caps_reserve:
  "0 \<le> amount \<Longrightarrow>
     totalAmmo (addAmmo amount w) = min (totalAmmo w + amount) 300
     \<and> magAmmo (addAmmo amount w) = magAmmo w
     \<and> (300 < totalAmmo w \<longrightarrow> totalAmmo (addAmmo amount w) < totalAmmo w)
     \<and> totalAmmo constructor = 1200
     \<and> totalAmmo (addAmmo amount constructor) < totalAmmo constructor"
  by (simp add: addAmmo_def constructor_def)

theorem addAmmo_caps_reserve_witness:
  "(0::int) \<le> 50
   \<and> totalAmmo (addAmmo 50 constructor) = 300
   \<and> magAmmo (addAmmo 50 constructor) = 30
   \<and> totalAmmo (addAmmo 50 constructor) < totalAmmo constructor"
  using addAmmo_caps_reserve [of 50 constructor]
  by (simp add: constructor_def)

section \<open>Firing a shot: the bullet list\<close>

lemma createBulletTrail_activeBullets:
  "activeBullets (snd (createBulletTrail e p d w)) =
     (if length (activeBullets w) \<ge> maxBulletTrails w
      then tl (activeBullets w @ [fst (createBulletTrail e p d w)])
      else activeBullets w @ [fst (createBulletTrail e p d w)])"
  by (auto simp: createBulletTrail_def createBulletCollider_def alloc_def sceneAdd_def sceneRemove_def Let_def
      split: prod.splits list.splits)

lemma createBulletTrail_mesh:
  "mesh (fst (createBulletTrail e p d w)) = nextRef w"
  by (simp add: createBulletTrail_def createBulletCollider_def alloc_def sceneAdd_def Let_def split: prod.splits)

lemma createBulletTrail_nextRef:
  "nextRef (snd (createBulletTrail e p d w)) = nextRef w + 2"
  by (auto simp add: createBulletTrail_def createBulletCollider_def alloc_def sceneAdd_def sceneRemove_def Let_def split: prod.splits list.splits)

lemma createBulletTrail_maxBulletTrails:
  "maxBulletTrails (snd (createBulletTrail e p d w)) = maxBulletTrails w"
  by (auto simp add: createBulletTrail_def createBulletCollider_def alloc_def sceneAdd_def sceneRemove_def Let_def split: prod.splits list.splits)

lemma sorted_wrt_subseq:
  "subseq xs ys \<Longrightarrow> sorted_wrt P ys \<Longrightarrow> sorted_wrt P xs"
proof (induction rule: list_emb.induct)
  case (list_emb_Cons xs ys y)
  then show ?case by simp
next
  case (list_emb_Cons2 x y xs ys)
  then show ?case by (auto dest: list_emb_set)
qed simp

section \<open>A tick only removes bullets\<close>

lemma subseq_imp_subset: "subseq xs ys \<Longrightarrow> set xs \<subseteq> set ys"
  by (induction rule: list_emb.induct) auto

lemma subseq_spliceBullet: "subseq (spliceBullet m bs) bs"
  by (induction bs) auto

lemma subseq_splice: "subseq (take i xs @ drop (Suc i) xs) xs"
proof -
  have "subseq (take i xs @ drop (Suc i) xs) (take i xs @ drop i xs)"
    by (intro list_emb_append_mono subseq_order.order_refl suffix_imp_subseq)
       (metis Suc_n_not_le_n drop_drop nat_le_linear plus_1_eq_Suc suffix_drop)
  then show ?thesis by simp
qed

lemma map_mesh_life:
  "map mesh (map (\<lambda>x. if mesh x = m then x\<lparr>life := l\<rparr> else x) bs) = map mesh bs"
  by (induction bs) auto

lemma onlyRemoves_refl: "onlyRemoves w w"
  by (simp add: onlyRemoves_def)

lemma onlyRemoves_trans: "onlyRemoves a b \<Longrightarrow> onlyRemoves b c \<Longrightarrow> onlyRemoves a c"
  by (auto simp: onlyRemoves_def intro: subseq_order.order_trans order_trans)

lemma removeBulletCollider_frame:
  "activeBullets (removeBulletCollider m w) = activeBullets w"
  "nextRef (removeBulletCollider m w) = nextRef w"
  "magAmmo (removeBulletCollider m w) = magAmmo w"
  "totalAmmo (removeBulletCollider m w) = totalAmmo w"
  "maxAmmo (removeBulletCollider m w) = maxAmmo w"
  "fireRate (removeBulletCollider m w) = fireRate w"
  "shootTimer (removeBulletCollider m w) = shootTimer w"
  "isShooting (removeBulletCollider m w) = isShooting w"
  "isLoaded (removeBulletCollider m w) = isLoaded w"
  "maxBulletTrails (removeBulletCollider m w) = maxBulletTrails w"
  by (simp_all add: removeBulletCollider_def sceneRemove_def split: option.splits)

lemma removeHitBullet_onlyRemoves: "onlyRemoves w (removeHitBullet b w)"
  by (simp add: onlyRemoves_def removeHitBullet_def Let_def sceneRemove_def
      removeBulletCollider_frame subseq_map subseq_spliceBullet)

lemma setPosition_onlyRemoves: "onlyRemoves w (setPosition r p w)"
  by (simp add: onlyRemoves_def setPosition_def)

lemma Weapon_onTargetHit_onlyRemoves: "onlyRemoves w (Weapon_onTargetHit t h w)"
  by (simp add: onlyRemoves_def Weapon_onTargetHit_def)

lemma targetHit_onlyRemoves:
  "onlyRemoves w (removeHitBullet b
     (case parentTarget (objects w1 r) of
        None \<Rightarrow> setPosition bc p (setPosition m p w)
      | Some target \<Rightarrow>
          if isTarget (objects w1 target)
          then Weapon_onTargetHit target hit (setPosition bc p (setPosition m p w))
          else setPosition bc p (setPosition m p w)))"
proof -
  have 1: "onlyRemoves w (setPosition bc p (setPosition m p w))"
    using onlyRemoves_trans setPosition_onlyRemoves by blast
  have 2: "onlyRemoves w (Weapon_onTargetHit t hit (setPosition bc p (setPosition m p w)))" for t
    using 1 onlyRemoves_trans Weapon_onTargetHit_onlyRemoves by blast
  have 3: "onlyRemoves w w' \<Longrightarrow> onlyRemoves w (removeHitBullet b w')" for w'
    using onlyRemoves_trans removeHitBullet_onlyRemoves by blast
  show ?thesis
    by (cases "parentTarget (objects w1 r)") (simp_all add: 1 2 3)
qed

lemma checkBulletColliderCollision_onlyRemoves:
  "onlyRemoves w (snd (checkBulletColliderCollision e w b prev))"
proof (cases "bulletColliders w (mesh b)")
  case None
  then show ?thesis by (simp add: checkBulletColliderCollision_def onlyRemoves_refl)
next
  case (Some bc)
  show ?thesis
  proof (cases "lengthV (subVectors (position (objects w (mesh b))) prev) = 0")
    case True
    then show ?thesis using Some by (simp add: checkBulletColliderCollision_def onlyRemoves_refl)
  next
    case False
    let ?r = "sweptRay prev (position (objects w (mesh b)))"
    show ?thesis
    proof (cases "intersectObjects e ?r (visibleTargetColliders w) False")
      case (Cons hit hs)
      then show ?thesis
        using Some False targetHit_onlyRemoves
        by (simp add: checkBulletColliderCollision_def Let_def)
    next
      case Nil
      note tnil = Nil
      show ?thesis
      proof (cases "intersectObjects e ?r (environmentTargets w) True")
        case Nil
        then show ?thesis using Some False tnil
          by (simp add: checkBulletColliderCollision_def onlyRemoves_refl)
      next
        case (Cons hit hs)
        have "onlyRemoves w (removeHitBullet b (setPosition bc (point hit) (setPosition (mesh b) (point hit) w)))"
          using onlyRemoves_trans setPosition_onlyRemoves removeHitBullet_onlyRemoves by blast
        then show ?thesis using Some False tnil Cons
          by (simp add: checkBulletColliderCollision_def Let_def)
      qed
    qed
  qed
qed

lemma updateBullet_onlyRemoves: "onlyRemoves w (updateBullet e dt i w)"
proof (cases "i < length (activeBullets w)")
  case False
  then show ?thesis by (simp add: updateBullet_def onlyRemoves_refl)
next
  case True
  define b where "b = activeBullets w ! i"
  define w2 where "w2 = advanceBullet dt b w"
  define w3 where "w3 = snd (checkBulletColliderCollision e w2 b (position (objects w (mesh b))))"
  define w4 where "w4 = w3\<lparr>activeBullets :=
                     map (\<lambda>x. if mesh x = mesh b then x\<lparr>life := life b - dt\<rparr> else x)
                       (activeBullets w3)\<rparr>"
  have 1: "onlyRemoves w w2"
    by (auto simp: w2_def advanceBullet_def Let_def onlyRemoves_def setPosition_def split: option.splits)
  have 3: "onlyRemoves w2 w3"
    unfolding w3_def by (rule checkBulletColliderCollision_onlyRemoves)
  have 4: "onlyRemoves w3 w4"
    using map_mesh_life [of "mesh b" "life b - dt" "activeBullets w3"]
    by (simp add: w4_def onlyRemoves_def del: map_map)
  have 14: "onlyRemoves w w4"
    using 1 3 4 onlyRemoves_trans by blast
  let ?w5 = "sceneRemove (mesh b) (removeBulletCollider (mesh b) w4)"
  have 5: "onlyRemoves w4 (?w5\<lparr>activeBullets := take i (activeBullets ?w5) @ drop (Suc i) (activeBullets ?w5)\<rparr>)"
    using subseq_splice [of i "map mesh (activeBullets w4)"]
    by (simp add: onlyRemoves_def sceneRemove_def removeBulletCollider_frame take_map drop_map)
  have "updateBullet e dt i w =
          (if life b - dt \<le> 0
           then ?w5\<lparr>activeBullets := take i (activeBullets ?w5) @ drop (Suc i) (activeBullets ?w5)\<rparr>
           else w4)"
    by (simp only: updateBullet_def Let_def b_def w2_def w3_def w4_def True if_True)
  then show ?thesis
    using 14 5 onlyRemoves_trans by auto
qed

lemma updateBulletsFrom_onlyRemoves: "onlyRemoves w (updateBulletsFrom e dt n w)"
proof (induction n arbitrary: w)
  case 0
  then show ?case by (simp add: onlyRemoves_refl)
next
  case (Suc n)
  show ?case
    using Suc.IH [of "updateBullet e dt n w"] updateBullet_onlyRemoves [of w e dt n]
    by (auto intro: onlyRemoves_trans)
qed

lemma updateBullets_onlyRemoves: "onlyRemoves w (updateBullets e dt w)"
  by (simp add: updateBullets_def updateBulletsFrom_onlyRemoves)

section \<open>Collision\<close>

subsection \<open>The swept ray\<close>

lemma lengthV_eq_0_iff: "lengthV a = 0 \<longleftrightarrow> a = (0, 0, 0)"
proof -
  obtain x y z where a: "a = (x, y, z)" by (cases a)
  have "x * x + y * y + z * z = 0 \<longleftrightarrow> x = 0 \<and> y = 0 \<and> z = 0"
    by (smt (verit) mult_eq_0_iff zero_le_square add_nonneg_eq_0_iff add_nonneg_nonneg)
  then show ?thesis by (simp add: a lengthV_def)
qed

lemma lengthV_nonneg: "0 \<le> lengthV a"
  by (cases a) (simp add: lengthV_def)

lemma subVectors_eq_0_iff: "subVectors a b = (0, 0, 0) \<longleftrightarrow> a = b"
  by (cases a; cases b) (simp add: subVectors_def)

lemma sweptRay_far_pos: "cur \<noteq> prev \<Longrightarrow> 0 < far (sweptRay prev cur)"
  using lengthV_nonneg [of "subVectors cur prev"] lengthV_eq_0_iff [of "subVectors cur prev"]
  by (simp add: sweptRay_def Let_def subVectors_eq_0_iff)

lemma normalizeV_scale:
  "lengthV d \<noteq> 0 \<Longrightarrow> multiplyScalar (normalizeV d) (s * lengthV d) = multiplyScalar d s"
  by (cases d) (simp add: normalizeV_def multiplyScalar_def Let_def)

lemma sweptRay_point:
  assumes "cur \<noteq> prev"
  shows "addV (origin (sweptRay prev cur))
           (multiplyScalar (direction (sweptRay prev cur)) (s * far (sweptRay prev cur)))
         = addV prev (multiplyScalar (subVectors cur prev) s)"
proof -
  have l: "lengthV (subVectors cur prev) \<noteq> 0"
    using assms by (simp add: lengthV_eq_0_iff subVectors_eq_0_iff)
  show ?thesis
    by (simp add: sweptRay_def Let_def normalizeV_scale [OF l])
qed

lemma segment_end: "addV prev (multiplyScalar (subVectors cur prev) 1) = cur"
  by (cases prev; cases cur) (simp add: addV_def subVectors_def multiplyScalar_def)

lemma visibleTargetColliders_all:
  "list_all (\<lambda>c. visible (objects w c)) (map snd (targetColliders w)) \<Longrightarrow>
   visibleTargetColliders w = map (\<lambda>c. (c, objects w c)) (map snd (targetColliders w))"
  by (simp add: visibleTargetColliders_def list_all_iff)

subsection \<open>The collision test\<close>

lemma advanceBullet_position:
  "position (objects (advanceBullet dt b w) (mesh b)) =
     addV (position (objects w (mesh b))) (multiplyScalar (velocity b) dt)"
  by (simp add: advanceBullet_def Let_def setPosition_def split: option.splits)

lemma advanceBullet_frame:
  "bulletColliders (advanceBullet dt b w) = bulletColliders w"
  "activeBullets (advanceBullet dt b w) = activeBullets w"
  "targetColliders (advanceBullet dt b w) = targetColliders w"
  "scene (advanceBullet dt b w) = scene w"
  by (simp_all add: advanceBullet_def Let_def setPosition_def split: option.splits)

lemma checkBulletColliderCollision_cong:
  assumes "\<And>objs recursive.
      intersectObjects e' (sweptRay prev (position (objects w (mesh b)))) objs recursive
      = intersectObjects e (sweptRay prev (position (objects w (mesh b)))) objs recursive"
  shows "checkBulletColliderCollision e' w b prev = checkBulletColliderCollision e w b prev"
  by (unfold checkBulletColliderCollision_def Let_def assms) (rule refl)

lemma addV_eq_self_iff: "addV p d = p \<longleftrightarrow> d = (0, 0, 0)"
  by (cases p; cases d) (simp add: addV_def)

lemma mesh_spliceBullet:
  "distinct (map mesh bs) \<Longrightarrow> m \<notin> mesh ` set (spliceBullet m bs)"
  by (induction bs) auto

lemma removeHitBullet_removes:
  assumes "distinct (map mesh (activeBullets w'))"
  shows "mesh b \<notin> mesh ` set (activeBullets (removeHitBullet b w'))
       \<and> bulletColliders (removeHitBullet b w') (mesh b) = None"
  using assms mesh_spliceBullet [of "activeBullets w'" "mesh b"]
  by (simp add: removeHitBullet_def Let_def sceneRemove_def removeBulletCollider_def
      split: option.splits)

lemma checkBulletColliderCollision_target:
  assumes "bulletColliders w (mesh b) = Some bc"
    and "lengthV (subVectors (position (objects w (mesh b))) prev) \<noteq> 0"
    and "intersectObjects e (sweptRay prev (position (objects w (mesh b))))
           (visibleTargetColliders w) False = hit # hits"
  shows "checkBulletColliderCollision e w b prev =
           (HitTarget hit, removeHitBullet b
              (let w1 = setPosition bc (point hit) (setPosition (mesh b) (point hit) w)
               in case parentTarget (objects w1 (object hit)) of
                    Some target \<Rightarrow>
                      if isTarget (objects w1 target) then Weapon_onTargetHit target hit w1 else w1
                  | None \<Rightarrow> w1))"
  using assms by (simp add: checkBulletColliderCollision_def Let_def)

lemma checkBulletColliderCollision_hit_removes:
  assumes "bulletColliders w (mesh b) = Some bc"
    and "lengthV (subVectors (position (objects w (mesh b))) prev) \<noteq> 0"
    and "intersectObjects e (sweptRay prev (position (objects w (mesh b))))
           (visibleTargetColliders w) False = hit # hits"
    and "distinct (map mesh (activeBullets w))"
  shows "mesh b \<notin> mesh ` set (activeBullets (snd (checkBulletColliderCollision e w b prev)))
       \<and> bulletColliders (snd (checkBulletColliderCollision e w b prev)) (mesh b) = None"
proof -
  let ?w1 = "setPosition bc (point hit) (setPosition (mesh b) (point hit) w)"
  let ?w2 = "case parentTarget (objects ?w1 (object hit)) of
                    Some target \<Rightarrow>
                      if isTarget (objects ?w1 target) then Weapon_onTargetHit target hit ?w1 else ?w1
                  | None \<Rightarrow> ?w1"
  have "activeBullets ?w2 = activeBullets w"
    by (simp add: setPosition_def Weapon_onTargetHit_def split: option.splits)
  then have "distinct (map mesh (activeBullets ?w2))"
    using assms(4) by simp
  then show ?thesis
    using removeHitBullet_removes [of ?w2 b]
    by (simp add: checkBulletColliderCollision_target [OF assms(1,2,3)] Let_def)
qed

subsection \<open>The shooting range\<close>

lemma sweptRay_example:
  "sweptRay (0, 0, 0) (2, 0, 0) = \<lparr>origin = (0, 0, 0), direction = (1, 0, 0), near = 0, far = 2\<rparr>"
  by (simp add: sweptRay_def Let_def subVectors_def normalizeV_def lengthV_def)

lemma rangeScene_simps:
  "activeBullets rangeScene = [rangeBullet]"
  "bulletColliders rangeScene 10 = Some 11"
  "targetColliders rangeScene = [(12, 13)]"
  "scene rangeScene = [10, 11, 12, 13, 14]"
  "objects rangeScene = rangeObjects"
  "mesh rangeBullet = 10"
  "velocity rangeBullet = (100, 0, 0)"
  "life rangeBullet = 3"
  "targetHits rangeScene = []"
  by (simp_all add: rangeScene_def rangeBullet_def constructor_def)

lemma rangeObjects_simps:
  "rangeObjects 10 = newObject\<lparr>isBullet := True, hasParent := True\<rparr>"
  "rangeObjects 11 = newObject\<lparr>boxSize := (5, 5, 5), isBulletCollider := True, hasParent := True,
               parentBullet := Some 10\<rparr>"
  "rangeObjects 12 = newObject\<lparr>position := (1, - 1, 0), isMesh := False, isTarget := True,
               hasParent := True\<rparr>"
  "rangeObjects 13 = newObject\<lparr>position := (1, 0, 0), boxSize := (1 / 10, 2, 4),
               isTargetCollider := True, hasParent := True, parentTarget := Some 12\<rparr>"
  "rangeObjects 14 = newObject\<lparr>position := (1 / 2, 0, 0), boxSize := (1 / 10, 2, 2),
               hasParent := True\<rparr>"
  by (simp_all add: rangeObjects_def)

lemma rangeMoved_simps:
  "position (objects rangeMoved 10) = (2, 0, 0)"
  "bulletColliders rangeMoved 10 = Some 11"
  "activeBullets rangeMoved = [rangeBullet]"
  "visibleTargetColliders rangeMoved = [(13, rangeObjects 13)]"
  "environmentTargets rangeMoved = [(14, rangeObjects 14)]"
  "targetHits rangeMoved = []"
  "objects rangeMoved 12 = rangeObjects 12"
  "objects rangeMoved 13 = rangeObjects 13"
  by (simp_all add: rangeMoved_def advanceBullet_def Let_def setPosition_def rangeScene_simps
      rangeObjects_simps newObject_def addV_def multiplyScalar_def visibleTargetColliders_def
      environmentTargets_def isWeaponMesh_def)

lemma xAxisCaster_meets_target: "xAxisCaster \<lparr>origin = (0, 0, 0), direction = (1, 0, 0), near = 0, far = 2\<rparr> [(13, rangeObjects 13)] False
   = [\<lparr>object = 13, point = (19 / 20, 0, 0), distance = 19 / 20\<rparr>]"
  by (simp add: xAxisCaster_def rangeObjects_simps newObject_def)

lemma xAxisCaster_meets_wall: "xAxisCaster \<lparr>origin = (0, 0, 0), direction = (1, 0, 0), near = 0, far = 2\<rparr> [(14, rangeObjects 14)] True
   = [\<lparr>object = 14, point = (9 / 20, 0, 0), distance = 9 / 20\<rparr>]"
  by (simp add: xAxisCaster_def rangeObjects_simps newObject_def)

lemma updateBullet_meshes_after_check:
  assumes "i < length (activeBullets w)"
  shows "mesh ` set (activeBullets (updateBullet e dt i w))
       \<subseteq> mesh ` set (activeBullets (snd (checkBulletColliderCollision e
             (advanceBullet dt (activeBullets w ! i) w) (activeBullets w ! i)
             (position (objects w (mesh (activeBullets w ! i)))))))"
proof -
  define b where "b = activeBullets w ! i"
  define w3 where "w3 = snd (checkBulletColliderCollision e (advanceBullet dt b w) b
                           (position (objects w (mesh b))))"
  define w4 where "w4 = w3\<lparr>activeBullets :=
                     map (\<lambda>x. if mesh x = mesh b then x\<lparr>life := life b - dt\<rparr> else x)
                       (activeBullets w3)\<rparr>"
  let ?w5 = "sceneRemove (mesh b) (removeBulletCollider (mesh b) w4)"
  have eq: "updateBullet e dt i w =
          (if life b - dt \<le> 0
           then ?w5\<lparr>activeBullets := take i (activeBullets ?w5) @ drop (Suc i) (activeBullets ?w5)\<rparr>
           else w4)"
    by (simp only: updateBullet_def Let_def b_def w3_def w4_def assms if_True)
  have m4: "map mesh (activeBullets w4) = map mesh (activeBullets w3)"
    using map_mesh_life [of "mesh b" "life b - dt" "activeBullets w3"]
    by (simp add: w4_def del: map_map)
  have a5: "activeBullets ?w5 = activeBullets w4"
    by (simp add: sceneRemove_def removeBulletCollider_frame)
  have "set (map mesh (take i (activeBullets w4) @ drop (Suc i) (activeBullets w4)))
        \<subseteq> set (map mesh (activeBullets w4))"
    using set_take_subset [of i "activeBullets w4"] set_drop_subset [of "Suc i" "activeBullets w4"]
    by auto
  then have "mesh ` set (activeBullets (updateBullet e dt i w)) \<subseteq> set (map mesh (activeBullets w4))"
    by (auto simp: eq a5)
  then show ?thesis
    unfolding m4 by (simp add: w3_def b_def)
qed

text \<open>
  C4. In a collision check that casts its ray (the bullet has a collider and has moved),
  with the registered target colliders visible as \<^verbatim>\<open>createTargetCollider\<close> makes them:
  if the ray caster reports an intersection of the swept segment with a registered target
  collider, the outcome is the hit on the nearest such collider, and the check answers the
  same whatever the ray caster would say about the scenery, which is not consulted. A
  nearer mesh of the scenery changes nothing (see the example after the theorem).
\<close>

theorem target_colliders_take_precedence:
  assumes "bulletColliders w (mesh b) = Some bulletCollider"
    and "position (objects w (mesh b)) \<noteq> prevPosition"
    and "list_all (\<lambda>c. visible (objects w c)) (map snd (targetColliders w))"
    and "intersectObjects e (sweptRay prevPosition (position (objects w (mesh b))))
           (map (\<lambda>c. (c, objects w c)) (map snd (targetColliders w))) False = hit # hits"
    and "intersectObjects e' (sweptRay prevPosition (position (objects w (mesh b))))
           (map (\<lambda>c. (c, objects w c)) (map snd (targetColliders w))) False = hit # hits"
  shows "fst (checkBulletColliderCollision e w b prevPosition) = HitTarget hit
       \<and> checkBulletColliderCollision e' w b prevPosition
         = checkBulletColliderCollision e w b prevPosition"
proof -
  have nz: "lengthV (subVectors (position (objects w (mesh b))) prevPosition) \<noteq> 0"
    using assms(2) by (simp add: lengthV_eq_0_iff subVectors_eq_0_iff)
  have v: "visibleTargetColliders w = map (\<lambda>c. (c, objects w c)) (map snd (targetColliders w))"
    using assms(3) by (rule visibleTargetColliders_all)
  show ?thesis
    using assms(1) nz assms(4,5)
    by (simp add: checkBulletColliderCollision_def v Let_def)
qed

theorem target_colliders_take_precedence_witness:
  "bulletColliders rangeMoved (mesh rangeBullet) = Some 11
   \<and> position (objects rangeMoved (mesh rangeBullet)) = (2, 0, 0)
   \<and> list_all (\<lambda>c. visible (objects rangeMoved c)) (map snd (targetColliders rangeMoved))
   \<and> intersectObjects rangeEnv (sweptRay (0, 0, 0) (2, 0, 0)) (environmentTargets rangeMoved) True
       = [\<lparr>object = 14, point = (9 / 20, 0, 0), distance = 9 / 20\<rparr>]
   \<and> intersectObjects blindEnv (sweptRay (0, 0, 0) (2, 0, 0)) (environmentTargets rangeMoved) True = []
   \<and> fst (checkBulletColliderCollision rangeEnv rangeMoved rangeBullet (0, 0, 0))
       = HitTarget \<lparr>object = 13, point = (19 / 20, 0, 0), distance = 19 / 20\<rparr>
   \<and> checkBulletColliderCollision blindEnv rangeMoved rangeBullet (0, 0, 0)
       = checkBulletColliderCollision rangeEnv rangeMoved rangeBullet (0, 0, 0)"
proof -
  have tc: "targetColliders rangeMoved = [(12, 13)]"
    by (simp add: rangeMoved_def advanceBullet_frame rangeScene_simps)
  have h1: "bulletColliders rangeMoved (mesh rangeBullet) = Some 11"
    and h2: "position (objects rangeMoved (mesh rangeBullet)) \<noteq> (0, 0, 0)"
    and p: "position (objects rangeMoved (mesh rangeBullet)) = (2, 0, 0)"
    and h3: "list_all (\<lambda>c. visible (objects rangeMoved c)) (map snd (targetColliders rangeMoved))"
    by (simp_all add: tc rangeMoved_simps rangeScene_simps rangeObjects_simps newObject_def)
  have h4: "intersectObjects rangeEnv (sweptRay (0, 0, 0) (position (objects rangeMoved (mesh rangeBullet))))
           (map (\<lambda>c. (c, objects rangeMoved c)) (map snd (targetColliders rangeMoved))) False
           = \<lparr>object = 13, point = (19 / 20, 0, 0), distance = 19 / 20\<rparr> # []"
    using xAxisCaster_meets_target by (simp add: p tc rangeMoved_simps rangeEnv_def sweptRay_example)
  have h5: "intersectObjects blindEnv (sweptRay (0, 0, 0) (position (objects rangeMoved (mesh rangeBullet))))
           (map (\<lambda>c. (c, objects rangeMoved c)) (map snd (targetColliders rangeMoved))) False
           = \<lparr>object = 13, point = (19 / 20, 0, 0), distance = 19 / 20\<rparr> # []"
    using xAxisCaster_meets_target by (simp add: p tc rangeMoved_simps blindEnv_def rangeEnv_def sweptRay_example)
  have e1: "intersectObjects rangeEnv (sweptRay (0, 0, 0) (2, 0, 0)) (environmentTargets rangeMoved) True
       = [\<lparr>object = 14, point = (9 / 20, 0, 0), distance = 9 / 20\<rparr>]"
    using xAxisCaster_meets_wall by (simp add: rangeMoved_simps rangeEnv_def sweptRay_example)
  have e2: "intersectObjects blindEnv (sweptRay (0, 0, 0) (2, 0, 0)) (environmentTargets rangeMoved) True = []"
    by (simp add: blindEnv_def rangeEnv_def)
  show ?thesis
    using target_colliders_take_precedence [OF h1 h2 h3 h4 h5] h1 p h3 e1 e2 by simp
qed

section \<open>The projectile cap\<close>

lemma createBulletTrail_bulletColliders:
  "bulletColliders (snd (createBulletTrail e p d w)) = (bulletColliders w)(nextRef w \<mapsto> Suc (nextRef w))"
  by (auto simp: createBulletTrail_def createBulletCollider_def alloc_def sceneAdd_def sceneRemove_def Let_def
      split: prod.splits list.splits)

lemma createBulletTrail_scene_at_cap:
  assumes "length (activeBullets w) = maxBulletTrails w" and "activeBullets w = old # rest"
  shows "scene (snd (createBulletTrail e p d w)) =
           removeAll (mesh old)
             (removeAll (Suc (nextRef w)) (removeAll (nextRef w) (scene w) @ [nextRef w])
              @ [Suc (nextRef w)])"
  using assms
  by (simp add: createBulletTrail_def createBulletCollider_def alloc_def sceneAdd_def sceneRemove_def Let_def)

lemma createBulletTrail_eviction_leaves_collider:
  assumes "length (activeBullets w) = maxBulletTrails w"
    and "activeBullets w = old # rest"
    and "bulletColliders w (mesh old) = Some c"
    and "mesh old < nextRef w" and "c < nextRef w" and "c \<noteq> mesh old" and "c \<in> set (scene w)"
  shows "bulletColliders (snd (createBulletTrail e p d w)) (mesh old) = Some c
       \<and> c \<in> set (scene (snd (createBulletTrail e p d w)))
       \<and> mesh old \<notin> set (scene (snd (createBulletTrail e p d w)))"
  using assms(3-7)
  by (simp add: createBulletTrail_bulletColliders createBulletTrail_scene_at_cap [OF assms(1,2)])

lemma fullMagazine_simps:
  "maxBulletTrails fullMagazine = 50"
  "nextRef fullMagazine = 110"
  "length (activeBullets fullMagazine) = 50"
  "activeBullets fullMagazine =
     \<lparr>mesh = 10, velocity = (0, 0, - 100), life = 3, startTime = 0\<rparr>
     # map (\<lambda>i. \<lparr>mesh = 2 * i + 10, velocity = (0, 0, - 100), life = 3, startTime = 0\<rparr>) [1..<50]"
  "bulletColliders fullMagazine 10 = Some 11"
  "scene fullMagazine = [10..<110]"
  by (simp_all add: fullMagazine_def constructor_def upt_conv_Cons del: upt_rec_numeral)

lemma fullMagazine_inCreationOrder: "inCreationOrder fullMagazine"
  unfolding inCreationOrder_def
  by (simp add: fullMagazine_def constructor_def comp_def sorted_wrt_map list_all_iff del: upt_rec_numeral)

text \<open>
  C7. When a shot is fired while the number of active bullets is at the cap
  (\<^verbatim>\<open>maxBulletTrails\<close>, 50 for a new weapon), the bullet that leaves the list is the one
  at its head, which is older than every bullet that stays: the list afterwards is the
  old list without its head, followed by the new bullet. No newer bullet is evicted, the
  count stays at the cap and the list stays in order of creation.
\<close>

theorem createBulletTrail_evicts_oldest:
  assumes "inCreationOrder w"
    and "length (activeBullets w) = maxBulletTrails w"
    and "0 < maxBulletTrails w"
  shows "activeBullets (snd (createBulletTrail e p d w)) =
           tl (activeBullets w) @ [fst (createBulletTrail e p d w)]
       \<and> list_all (\<lambda>b. mesh (hd (activeBullets w)) < mesh b)
           (activeBullets (snd (createBulletTrail e p d w)))
       \<and> length (activeBullets (snd (createBulletTrail e p d w))) = maxBulletTrails w
       \<and> inCreationOrder (snd (createBulletTrail e p d w))"
proof -
  obtain old rest where bs: "activeBullets w = old # rest"
    using assms(2,3) by (cases "activeBullets w") auto
  have a: "activeBullets (snd (createBulletTrail e p d w)) = rest @ [fst (createBulletTrail e p d w)]"
    using assms(2) bs by (simp add: createBulletTrail_activeBullets)
  have s: "sorted_wrt (<) (map mesh (old # rest))" and lt: "list_all (\<lambda>b. mesh b < nextRef w) (old # rest)"
    using assms(1) bs by (simp_all add: inCreationOrder_def)
  have newer: "list_all (\<lambda>b. mesh old < mesh b) (rest @ [fst (createBulletTrail e p d w)])"
    using s lt by (auto simp: list_all_iff createBulletTrail_mesh)
  have ord: "inCreationOrder (snd (createBulletTrail e p d w))"
    unfolding inCreationOrder_def a createBulletTrail_nextRef
    using s lt by (auto simp: list_all_iff createBulletTrail_mesh sorted_wrt_append)
  show ?thesis using a newer ord bs assms(2) by simp
qed

theorem createBulletTrail_evicts_oldest_witness:
  "inCreationOrder fullMagazine
   \<and> length (activeBullets fullMagazine) = maxBulletTrails fullMagazine
   \<and> maxBulletTrails fullMagazine = 50
   \<and> mesh (hd (activeBullets fullMagazine)) = 10
   \<and> activeBullets (snd (createBulletTrail rangeEnv (0, 0, 0) (0, 0, - 1) fullMagazine)) =
        tl (activeBullets fullMagazine) @ [fst (createBulletTrail rangeEnv (0, 0, 0) (0, 0, - 1) fullMagazine)]
   \<and> list_all (\<lambda>b. 10 < mesh b)
        (activeBullets (snd (createBulletTrail rangeEnv (0, 0, 0) (0, 0, - 1) fullMagazine)))
   \<and> length (activeBullets (snd (createBulletTrail rangeEnv (0, 0, 0) (0, 0, - 1) fullMagazine))) = 50"
proof -
  have h2: "length (activeBullets fullMagazine) = maxBulletTrails fullMagazine"
    and h3: "0 < maxBulletTrails fullMagazine"
    and m: "maxBulletTrails fullMagazine = 50"
    by (simp_all add: fullMagazine_simps(1,3))
  have hd: "mesh (hd (activeBullets fullMagazine)) = 10"
    by (simp add: fullMagazine_simps(4))
  note T = createBulletTrail_evicts_oldest [OF fullMagazine_inCreationOrder h2 h3,
        of rangeEnv "(0, 0, 0)" "(0, 0, - 1)"]
  from T have a: "activeBullets (snd (createBulletTrail rangeEnv (0, 0, 0) (0, 0, - 1) fullMagazine)) =
        tl (activeBullets fullMagazine) @ [fst (createBulletTrail rangeEnv (0, 0, 0) (0, 0, - 1) fullMagazine)]"
    by (rule conjunct1)
  from T have "list_all (\<lambda>b. mesh (hd (activeBullets fullMagazine)) < mesh b)
        (activeBullets (snd (createBulletTrail rangeEnv (0, 0, 0) (0, 0, - 1) fullMagazine)))"
    by blast
  then have l: "list_all (\<lambda>b. 10 < mesh b)
        (activeBullets (snd (createBulletTrail rangeEnv (0, 0, 0) (0, 0, - 1) fullMagazine)))"
    unfolding hd .
  from T have "length (activeBullets (snd (createBulletTrail rangeEnv (0, 0, 0) (0, 0, - 1) fullMagazine)))
       = maxBulletTrails fullMagazine"
    by blast
  then have n: "length (activeBullets (snd (createBulletTrail rangeEnv (0, 0, 0) (0, 0, - 1) fullMagazine))) = 50"
    unfolding m .
  show ?thesis
    using fullMagazine_inCreationOrder h2 m hd a l n by blast
qed

text \<open>
  C8. The claim: the collider of a projectile is removed in the step that removes the
  projectile, on every path. At the cap the code does otherwise: with 50 bullets in
  flight, the next shot evicts the oldest bullet (mesh 10, collider 11); the bullet leaves
  the list and its mesh leaves the scene, but its collider is still registered for the
  mesh and still in the scene.
\<close>

theorem cap_eviction_leaves_collider:
  "length (activeBullets fullMagazine) = maxBulletTrails fullMagazine
   \<and> mesh (hd (activeBullets fullMagazine)) = 10
   \<and> bulletColliders fullMagazine 10 = Some 11
   \<and> 10 \<notin> mesh ` set (activeBullets (snd (createBulletTrail rangeEnv (0, 0, 0) (0, 0, - 1) fullMagazine)))
   \<and> 10 \<notin> set (scene (snd (createBulletTrail rangeEnv (0, 0, 0) (0, 0, - 1) fullMagazine)))
   \<and> bulletColliders (snd (createBulletTrail rangeEnv (0, 0, 0) (0, 0, - 1) fullMagazine)) 10 = Some 11
   \<and> 11 \<in> set (scene (snd (createBulletTrail rangeEnv (0, 0, 0) (0, 0, - 1) fullMagazine)))"
proof -
  let ?w' = "snd (createBulletTrail rangeEnv (0, 0, 0) (0, 0, - 1) fullMagazine)"
  have h1: "length (activeBullets fullMagazine) = maxBulletTrails fullMagazine"
    by (simp add: fullMagazine_simps(1,3))
  note h2 = fullMagazine_simps(4)
  have c: "bulletColliders ?w' (mesh \<lparr>mesh = 10, velocity = (0, 0, - 100), life = 3, startTime = 0\<rparr>) = Some 11
       \<and> 11 \<in> set (scene ?w')
       \<and> mesh \<lparr>mesh = 10, velocity = (0, 0, - 100), life = 3, startTime = (0::real)\<rparr> \<notin> set (scene ?w')"
    by (rule createBulletTrail_eviction_leaves_collider [OF h1 h2])
       (simp_all add: fullMagazine_simps)
  have a: "activeBullets ?w' =
      map (\<lambda>i. \<lparr>mesh = 2 * i + 10, velocity = (0, 0, - 100), life = 3, startTime = 0\<rparr>) [1..<50]
      @ [fst (createBulletTrail rangeEnv (0, 0, 0) (0, 0, - 1) fullMagazine)]"
    using h1 by (simp add: createBulletTrail_activeBullets fullMagazine_simps(4))
  have n: "10 \<notin> mesh ` set (activeBullets ?w')"
    unfolding a by (auto simp: createBulletTrail_mesh fullMagazine_simps(2))
  show ?thesis
    using c n h1 by (simp add: fullMagazine_simps(4,5))
qed

lemma onlyRemoves_inCreationOrder:
  assumes "onlyRemoves w w'" and "inCreationOrder w"
  shows "inCreationOrder w'"
proof -
  have sub: "subseq (map mesh (activeBullets w')) (map mesh (activeBullets w))"
    and le: "nextRef w \<le> nextRef w'"
    using assms(1) by (simp_all add: onlyRemoves_def)
  have s: "sorted_wrt (<) (map mesh (activeBullets w))"
    and l: "\<forall>m \<in> set (map mesh (activeBullets w)). m < nextRef w"
    using assms(2) by (auto simp: inCreationOrder_def list_all_iff)
  have 1: "sorted_wrt (<) (map mesh (activeBullets w'))"
    using sub s by (rule sorted_wrt_subseq)
  have "set (map mesh (activeBullets w')) \<subseteq> set (map mesh (activeBullets w))"
    using sub by (rule subseq_imp_subset)
  then have 2: "\<forall>m \<in> set (map mesh (activeBullets w')). m < nextRef w'"
    using l le by (meson order_less_le_trans subsetD)
  show ?thesis
    using 1 2 by (auto simp: inCreationOrder_def list_all_iff)
qed

section \<open>The fire-rate gate\<close>

lemma fold_onlyRemoves:
  assumes "\<And>x v. onlyRemoves v (f x v)"
  shows "onlyRemoves w (fold f xs w)"
proof (induction xs arbitrary: w)
  case Nil
  then show ?case by (simp add: onlyRemoves_refl)
next
  case (Cons x xs)
  show ?case
    using assms [of w x] Cons.IH [of "f x w"] by (auto intro: onlyRemoves_trans)
qed

lemma createTargetCollider_onlyRemoves: "onlyRemoves w (snd (createTargetCollider t sz w))"
  by (simp add: createTargetCollider_def alloc_def sceneAdd_def Let_def onlyRemoves_def)

lemma removeTargetCollider_onlyRemoves: "onlyRemoves w (removeTargetCollider t w)"
  by (simp add: removeTargetCollider_def sceneRemove_def onlyRemoves_def split: option.splits)

lemma scanForNewTargets_onlyRemoves: "onlyRemoves w (scanForNewTargets w)"
  unfolding scanForNewTargets_def
  by (rule fold_onlyRemoves) (simp add: onlyRemoves_refl createTargetCollider_onlyRemoves)

lemma updateTargetColliders_onlyRemoves: "onlyRemoves w (updateTargetColliders w)"
  unfolding updateTargetColliders_def
  by (rule fold_onlyRemoves)
     (auto simp: onlyRemoves_refl removeTargetCollider_onlyRemoves setPosition_onlyRemoves)

lemma beforeShooting_onlyRemoves: "onlyRemoves w (beforeShooting e dt w)"
proof -
  have 1: "onlyRemoves w (w\<lparr>scanCounter := scanCounter w + 1\<rparr>)"
    by (simp add: onlyRemoves_def)
  let ?w1 = "w\<lparr>scanCounter := scanCounter w + 1\<rparr>"
  let ?w2 = "if scanCounter ?w1 mod 60 = 0 then scanForNewTargets ?w1 else ?w1"
  have 2: "onlyRemoves w ?w2"
    using 1 scanForNewTargets_onlyRemoves [of ?w1] onlyRemoves_trans by presburger
  have 3: "onlyRemoves w (updateBullets e dt ?w2)"
    using 2 updateBullets_onlyRemoves onlyRemoves_trans by blast
  have 4: "onlyRemoves w (updateTargetColliders (updateBullets e dt ?w2))"
    using 3 updateTargetColliders_onlyRemoves onlyRemoves_trans by blast
  show ?thesis
    unfolding beforeShooting_def Let_def by (rule 4)
qed

lemma update_unfold:
  "isLoaded w \<Longrightarrow> update e dt w =
     (let w4 = beforeShooting e dt w;
          w5 = (if isShooting w4 \<and> shootTimer w4 \<le> 0
                then (case shoot e w4 of
                        (fired, w') \<Rightarrow> if fired then w'\<lparr>shootTimer := fireRate w'\<rparr> else w')
                else w4)
      in if shootTimer w5 > 0 then w5\<lparr>shootTimer := shootTimer w5 - dt\<rparr> else w5)"
  by (simp add: update_def beforeShooting_def Let_def)

lemma update_gated:
  assumes "isLoaded w" and "0 < shootTimer w"
  shows "onlyRemoves w ((update e dt w)\<lparr>shootTimer := shootTimer w\<rparr>)
       \<and> shootTimer (update e dt w) = shootTimer w - dt"
proof -
  have o: "onlyRemoves w (beforeShooting e dt w)" by (rule beforeShooting_onlyRemoves)
  then have t: "shootTimer (beforeShooting e dt w) = shootTimer w"
    by (simp add: onlyRemoves_def)
  have "update e dt w = (beforeShooting e dt w)\<lparr>shootTimer := shootTimer w - dt\<rparr>"
    using assms t by (simp add: update_unfold Let_def)
  then show ?thesis
    using o by (simp add: onlyRemoves_def)
qed

lemma update_gated_ticks:
  assumes "isLoaded w" and "0 \<le> dt" and "real k * dt < shootTimer w + dt"
  shows "onlyRemoves w (((update e dt ^^ k) w)\<lparr>shootTimer := shootTimer w\<rparr>)
       \<and> shootTimer ((update e dt ^^ k) w) = shootTimer w - real k * dt"
  using assms(3)
proof (induction k)
  case 0
  then show ?case by (simp add: onlyRemoves_def)
next
  case (Suc k)
  let ?wk = "(update e dt ^^ k) w"
  have lt: "real k * dt < shootTimer w + dt"
    using Suc.prems assms(2) by (simp add: algebra_simps)
  have ih: "onlyRemoves w (?wk\<lparr>shootTimer := shootTimer w\<rparr>)"
    and t: "shootTimer ?wk = shootTimer w - real k * dt"
    using Suc.IH [OF lt] by simp_all
  have loaded: "isLoaded ?wk"
    using ih assms(1) by (simp add: onlyRemoves_def)
  have pos: "0 < shootTimer ?wk"
    using Suc.prems t by (simp add: algebra_simps)
  have step: "onlyRemoves ?wk ((update e dt ?wk)\<lparr>shootTimer := shootTimer ?wk\<rparr>)"
    and t': "shootTimer (update e dt ?wk) = shootTimer ?wk - dt"
    using update_gated [OF loaded pos, of e dt] by simp_all
  have "onlyRemoves w ((update e dt ?wk)\<lparr>shootTimer := shootTimer w\<rparr>)"
    using ih step by (auto simp: onlyRemoves_def intro: subseq_order.order_trans order_trans)
  then show ?case
    using t t' by (simp add: algebra_simps)
qed

lemma update_fires:
  assumes "isLoaded w" and "isShooting w" and "shootTimer w \<le> 0" and "0 < magAmmo w"
    and "0 < fireRate w"
  shows "update e dt w =
     (snd (createBulletTrail e (getGunMuzzlePosition e) (normalizeV (getWorldDirection e))
        ((beforeShooting e dt w)\<lparr>magAmmo := magAmmo w - 1\<rparr>)))\<lparr>shootTimer := fireRate w - dt\<rparr>"
proof -
  let ?w4 = "beforeShooting e dt w"
  have o: "onlyRemoves w ?w4" by (rule beforeShooting_onlyRemoves)
  then have f: "isShooting ?w4" "shootTimer ?w4 \<le> 0" "0 < magAmmo ?w4" "magAmmo ?w4 = magAmmo w"
      "fireRate ?w4 = fireRate w"
    using assms by (simp_all add: onlyRemoves_def)
  let ?c = "createBulletTrail e (getGunMuzzlePosition e) (normalizeV (getWorldDirection e))
        (?w4\<lparr>magAmmo := magAmmo w - 1\<rparr>)"
  have fr: "fireRate (snd ?c) = fireRate w"
    using f(5)
    by (auto simp: createBulletTrail_def createBulletCollider_def alloc_def sceneAdd_def
        sceneRemove_def Let_def split: prod.splits list.splits)
  have s: "shoot e ?w4 = (True, snd ?c)"
    using f by (simp add: shoot_def Let_def)
  show ?thesis
    using assms(1,5) f(1,2) fr by (simp add: update_unfold Let_def s)
qed

lemma createBulletTrail_ammo:
  "magAmmo (snd (createBulletTrail e p d w)) = magAmmo w"
  "totalAmmo (snd (createBulletTrail e p d w)) = totalAmmo w"
  "isLoaded (snd (createBulletTrail e p d w)) = isLoaded w"
  "fireRate (snd (createBulletTrail e p d w)) = fireRate w"
  by (auto simp: createBulletTrail_def createBulletCollider_def alloc_def sceneAdd_def
        sceneRemove_def Let_def split: prod.splits list.splits)

lemma createBulletTrail_new_bullet:
  "fst (createBulletTrail e p d w) =
     \<lparr>mesh = nextRef w, velocity = multiplyScalar d (bulletSpeed w), life = bulletLifetime w,
      startTime = performance_now e\<rparr>"
  by (simp add: createBulletTrail_def createBulletCollider_def alloc_def sceneAdd_def Let_def
      split: prod.splits)

lemma createBulletTrail_appends:
  assumes "0 < maxBulletTrails w"
  shows "activeBullets (snd (createBulletTrail e p d w)) \<noteq> []
       \<and> last (activeBullets (snd (createBulletTrail e p d w))) = fst (createBulletTrail e p d w)
       \<and> subseq (butlast (activeBullets (snd (createBulletTrail e p d w)))) (activeBullets w)"
proof (cases "maxBulletTrails w \<le> length (activeBullets w)")
  case False
  then show ?thesis by (simp add: createBulletTrail_activeBullets)
next
  case True
  then obtain old rest where bs: "activeBullets w = old # rest"
    using assms by (cases "activeBullets w") auto
  have "subseq rest (old # rest)"
    by (rule list_emb_Cons) simp
  then show ?thesis
    using True by (simp add: createBulletTrail_activeBullets bs)
qed

lemma update_empty_magazine:
  assumes "isLoaded w" and "isShooting w" and "shootTimer w \<le> 0" and "magAmmo w \<le> 0"
  shows "update e dt w = reload (beforeShooting e dt w)"
proof -
  let ?w4 = "beforeShooting e dt w"
  have o: "onlyRemoves w ?w4" by (rule beforeShooting_onlyRemoves)
  then have f: "isShooting ?w4" "shootTimer ?w4 \<le> 0" "magAmmo ?w4 \<le> 0"
    using assms by (simp_all add: onlyRemoves_def)
  have t: "shootTimer (reload ?w4) = shootTimer ?w4"
    by (simp add: reload_def Let_def)
  show ?thesis
    using assms(1) f t by (simp add: update_unfold Let_def shoot_def)
qed

lemma reload_after_onlyRemoves:
  assumes "onlyRemoves w w'"
  shows "magAmmo (reload w') = magAmmo (reload w) \<and> totalAmmo (reload w') = totalAmmo (reload w)
       \<and> activeBullets (reload w') = activeBullets w' \<and> shootTimer (reload w') = shootTimer w"
  using assms by (simp add: onlyRemoves_def reload_def Let_def)

lemmas weapon_defs = update_def startShooting_def shoot_def createBulletTrail_def createBulletCollider_def
  alloc_def sceneAdd_def sceneRemove_def updateBullets_def updateBullet_def advanceBullet_def
  setPosition_def checkBulletColliderCollision_def visibleTargetColliders_def environmentTargets_def
  isWeaponMesh_def updateTargetColliders_def scanForNewTargets_def removeBulletCollider_def
  removeHitBullet_def reload_def

lemma firstPress_simps:
  "activeBullets firstPress = [\<lparr>mesh = 0, velocity = (100, 0, 0), life = 3, startTime = 0\<rparr>]"
  "magAmmo firstPress = 29"
  "shootTimer firstPress = 21 / 250"
  "isLoaded firstPress"
  "scene firstPress = [0, 1]"
  "targetColliders firstPress = []"
  "bulletColliders firstPress 0 = Some 1"
  "scanCounter firstPress = 1"
  "isBullet (objects firstPress 0)"
  "isBulletCollider (objects firstPress 1)"
  "maxBulletTrails firstPress = 50"
  "fireRate firstPress = 1 / 10"
  by (simp_all add: firstPress_def loadedWeapon_def constructor_def rangeEnv_def weapon_defs Let_def
      newObject_def normalizeV_def lengthV_def multiplyScalar_def)

lemma secondPress_simps:
  "map mesh (activeBullets secondPress) = [0, 2]"
  "magAmmo secondPress = 28"
  by (simp_all add: secondPress_def firstPress_def loadedWeapon_def constructor_def rangeEnv_def weapon_defs Let_def
      newObject_def normalizeV_def lengthV_def multiplyScalar_def addV_def subVectors_def xAxisCaster_def)

lemma startShooting_resets_timer:
  "isLoaded w \<Longrightarrow> shootTimer (startShooting w) = 0 \<and> isShooting (startShooting w)"
  by (simp add: startShooting_def)

text \<open>
  C6, as amended. While the trigger stays held (no new \<^verbatim>\<open>startShooting\<close>), on a loaded
  weapon whose timer has run out: if the magazine is not empty, the tick spawns exactly one
  bullet (one round less in the magazine, the new bullet at the end of the list, no other
  bullet added) and arms the timer with \<^verbatim>\<open>fireRate\<close>; then no tick within less than
  \<^verbatim>\<open>fireRate\<close> of accumulated tick time spawns a bullet or changes the ammunition, and
  nothing is queued. If the magazine is empty, the tick calls \<^verbatim>\<open>reload\<close> once, spawns
  nothing and leaves the timer as it is. \<^verbatim>\<open>startShooting\<close> itself resets the timer to 0.
\<close>

theorem fire_rate_gate_while_held:
  assumes "isLoaded w" and "isShooting w" and "shootTimer w \<le> 0"
    and "0 < fireRate w" and "0 < dt" and "0 < maxBulletTrails w"
  shows "(0 < magAmmo w \<longrightarrow>
            magAmmo (update e dt w) = magAmmo w - 1
          \<and> totalAmmo (update e dt w) = totalAmmo w
          \<and> shootTimer (update e dt w) = fireRate w - dt
          \<and> activeBullets (update e dt w) \<noteq> []
          \<and> velocity (last (activeBullets (update e dt w)))
              = multiplyScalar (normalizeV (getWorldDirection e)) (bulletSpeed w)
          \<and> subseq (map mesh (butlast (activeBullets (update e dt w)))) (map mesh (activeBullets w))
          \<and> (\<forall>k. real k * dt < fireRate w \<longrightarrow>
                 magAmmo ((update e dt ^^ k) (update e dt w)) = magAmmo w - 1
               \<and> totalAmmo ((update e dt ^^ k) (update e dt w)) = totalAmmo w
               \<and> subseq (map mesh (activeBullets ((update e dt ^^ k) (update e dt w))))
                    (map mesh (activeBullets (update e dt w)))
               \<and> shootTimer ((update e dt ^^ k) (update e dt w)) = fireRate w - (real k + 1) * dt))
       \<and> (magAmmo w \<le> 0 \<longrightarrow>
            magAmmo (update e dt w) = magAmmo (reload w)
          \<and> totalAmmo (update e dt w) = totalAmmo (reload w)
          \<and> subseq (map mesh (activeBullets (update e dt w))) (map mesh (activeBullets w))
          \<and> shootTimer (update e dt w) = shootTimer w)
       \<and> isShooting (startShooting w) \<and> shootTimer (startShooting w) = 0"
proof -
  let ?w4 = "beforeShooting e dt w"
  have o: "onlyRemoves w ?w4" by (rule beforeShooting_onlyRemoves)
  have fired: ?thesis if mag: "0 < magAmmo w"
  proof -
    let ?w4' = "?w4\<lparr>magAmmo := magAmmo w - 1\<rparr>"
    let ?c = "createBulletTrail e (getGunMuzzlePosition e) (normalizeV (getWorldDirection e)) ?w4'"
    let ?w1 = "update e dt w"
    have u: "?w1 = (snd ?c)\<lparr>shootTimer := fireRate w - dt\<rparr>"
      by (rule update_fires [OF assms(1,2,3) mag assms(4)])
    have cap: "0 < maxBulletTrails ?w4'"
      using o assms(6) by (simp add: onlyRemoves_def)
    note app = createBulletTrail_appends [OF cap, of e "getGunMuzzlePosition e"
        "normalizeV (getWorldDirection e)"]
    have a1: "magAmmo ?w1 = magAmmo w - 1" "totalAmmo ?w1 = totalAmmo w"
      "shootTimer ?w1 = fireRate w - dt" "isLoaded ?w1"
      using o assms(1) by (simp_all add: u createBulletTrail_ammo onlyRemoves_def)
    have a2: "activeBullets ?w1 \<noteq> []"
      using app by (simp add: u)
    have sp: "bulletSpeed ?w4 = bulletSpeed w"
    proof -
      have "bulletSpeed (fold f xs v) = bulletSpeed v"
        if "\<And>x v. bulletSpeed (f x v) = bulletSpeed v" for f :: "'a \<Rightarrow> weapon \<Rightarrow> weapon" and xs v
        using that by (induction xs arbitrary: v) simp_all
      note fold_speed = this
      have 1: "bulletSpeed (scanForNewTargets v) = bulletSpeed v" for v
        unfolding scanForNewTargets_def
        by (rule fold_speed) (simp add: createTargetCollider_def alloc_def sceneAdd_def Let_def)
      have 2: "bulletSpeed (updateTargetColliders v) = bulletSpeed v" for v
        unfolding updateTargetColliders_def
        by (rule fold_speed)
           (auto simp: removeTargetCollider_def sceneRemove_def setPosition_def split: option.splits)
      have r: "bulletSpeed (removeHitBullet b v) = bulletSpeed v" for b v
        by (simp add: removeHitBullet_def Let_def sceneRemove_def removeBulletCollider_def
            split: option.splits)
      have c: "bulletSpeed (snd (checkBulletColliderCollision e v b p)) = bulletSpeed v" for v b p
        by (simp add: checkBulletColliderCollision_def Let_def r setPosition_def Weapon_onTargetHit_def
            split: option.splits list.splits)
      have ub: "bulletSpeed (updateBullet e dt i v) = bulletSpeed v" for i v
        by (simp add: updateBullet_def Let_def c advanceBullet_def setPosition_def sceneRemove_def
            removeBulletCollider_def split: option.splits)
      have 3: "bulletSpeed (updateBulletsFrom e dt n v) = bulletSpeed v" for n v
        by (induction n arbitrary: v) (simp_all add: ub)
      show ?thesis
        by (simp add: beforeShooting_def Let_def 1 2 3 updateBullets_def)
    qed
    have a3: "velocity (last (activeBullets ?w1))
              = multiplyScalar (normalizeV (getWorldDirection e)) (bulletSpeed w)"
      using app by (simp add: u createBulletTrail_new_bullet sp)
    have "subseq (map mesh (butlast (activeBullets (snd ?c)))) (map mesh (activeBullets ?w4'))"
      using app by (simp add: subseq_map flip: map_butlast)
    moreover have "subseq (map mesh (activeBullets ?w4')) (map mesh (activeBullets w))"
      using o by (simp add: onlyRemoves_def)
    ultimately have a4: "subseq (map mesh (butlast (activeBullets ?w1))) (map mesh (activeBullets w))"
      by (auto simp: u intro: subseq_order.order_trans)
    have a5: "magAmmo ((update e dt ^^ k) ?w1) = magAmmo w - 1
               \<and> totalAmmo ((update e dt ^^ k) ?w1) = totalAmmo w
               \<and> subseq (map mesh (activeBullets ((update e dt ^^ k) ?w1)))
                    (map mesh (activeBullets ?w1))
               \<and> shootTimer ((update e dt ^^ k) ?w1) = fireRate w - (real k + 1) * dt"
      if k: "real k * dt < fireRate w" for k
    proof -
      have lt: "real k * dt < shootTimer ?w1 + dt"
        using k by (simp add: a1)
      have d: "0 \<le> dt" using assms(5) by simp
      from update_gated_ticks [OF a1(4) d lt, of e]
      show ?thesis
        by (simp add: onlyRemoves_def a1 algebra_simps)
    qed
    show ?thesis
      using mag a1 a2 a3 a4 a5 assms(1) by (simp add: startShooting_def)
  qed
  have empty: ?thesis if mag: "magAmmo w \<le> 0"
  proof -
    have u: "update e dt w = reload ?w4"
      by (rule update_empty_magazine [OF assms(1,2,3) mag])
    have "subseq (map mesh (activeBullets ?w4)) (map mesh (activeBullets w))"
      using o by (simp add: onlyRemoves_def)
    then show ?thesis
      using mag reload_after_onlyRemoves [OF o] assms(1) by (simp add: u startShooting_def)
  qed
  show ?thesis
  proof (cases "0 < magAmmo w")
    case True
    then show ?thesis by (rule fired)
  next
    case False
    then have "magAmmo w \<le> 0" by simp
    then show ?thesis by (rule empty)
  qed
qed

theorem fire_rate_gate_while_held_witness:
  "isLoaded (startShooting loadedWeapon) \<and> isShooting (startShooting loadedWeapon)
   \<and> shootTimer (startShooting loadedWeapon) \<le> 0
   \<and> 0 < fireRate (startShooting loadedWeapon) \<and> (0::real) < 2 / 125
   \<and> 0 < maxBulletTrails (startShooting loadedWeapon)
   \<and> 0 < magAmmo (startShooting loadedWeapon)
   \<and> real 6 * (2 / 125) < fireRate (startShooting loadedWeapon)
   \<and> magAmmo (update rangeEnv (2 / 125) (startShooting loadedWeapon)) = 29
   \<and> shootTimer (update rangeEnv (2 / 125) (startShooting loadedWeapon)) = 21 / 250
   \<and> magAmmo ((update rangeEnv (2 / 125) ^^ 6) (update rangeEnv (2 / 125) (startShooting loadedWeapon))) = 29
   \<and> shootTimer ((update rangeEnv (2 / 125) ^^ 6) (update rangeEnv (2 / 125) (startShooting loadedWeapon)))
       = - (3 / 250)
   \<and> magAmmo emptyMagazine \<le> 0
   \<and> magAmmo (update rangeEnv (2 / 125) emptyMagazine) = 30
   \<and> totalAmmo (update rangeEnv (2 / 125) emptyMagazine) = 1170
   \<and> shootTimer (update rangeEnv (2 / 125) emptyMagazine) = 0"
proof -
  let ?w = "startShooting loadedWeapon"
  have f: "isLoaded ?w" "isShooting ?w" "shootTimer ?w \<le> 0" "0 < fireRate ?w"
    "0 < maxBulletTrails ?w" "0 < magAmmo ?w" "fireRate ?w = 1 / 10" "magAmmo ?w = 30"
    by (simp_all add: startShooting_def loadedWeapon_def constructor_def)
  have g: "isLoaded emptyMagazine" "isShooting emptyMagazine" "shootTimer emptyMagazine \<le> 0"
    "0 < fireRate emptyMagazine" "0 < maxBulletTrails emptyMagazine" "magAmmo emptyMagazine \<le> 0"
    "magAmmo (reload emptyMagazine) = 30" "totalAmmo (reload emptyMagazine) = 1170"
    "shootTimer emptyMagazine = 0"
    by (simp_all add: emptyMagazine_def startShooting_def loadedWeapon_def constructor_def reload_def)
  have d: "(0::real) < 2 / 125" by simp
  have k: "real 6 * (2 / 125) < fireRate ?w" by (simp add: f(7))
  note T = fire_rate_gate_while_held [OF f(1,2,3,4) d f(5), of rangeEnv]
  from T f(6) have a: "magAmmo (update rangeEnv (2 / 125) ?w) = magAmmo ?w - 1"
    "shootTimer (update rangeEnv (2 / 125) ?w) = fireRate ?w - 2 / 125"
    by blast+
  from T f(6) k have b: "magAmmo ((update rangeEnv (2 / 125) ^^ 6) (update rangeEnv (2 / 125) ?w)) = magAmmo ?w - 1"
    "shootTimer ((update rangeEnv (2 / 125) ^^ 6) (update rangeEnv (2 / 125) ?w))
       = fireRate ?w - (real 6 + 1) * (2 / 125)"
    by blast+
  note U = fire_rate_gate_while_held [OF g(1,2,3,4) d g(5), of rangeEnv]
  from U g(6) have c: "magAmmo (update rangeEnv (2 / 125) emptyMagazine) = magAmmo (reload emptyMagazine)"
    "totalAmmo (update rangeEnv (2 / 125) emptyMagazine) = totalAmmo (reload emptyMagazine)"
    "shootTimer (update rangeEnv (2 / 125) emptyMagazine) = shootTimer emptyMagazine"
    by blast+
  show ?thesis
    using f(1-6) d k g(6) a b c by (simp add: f(7,8) g(7,8,9))
qed

text \<open>
  The claim as stated fails: \<^verbatim>\<open>startShooting\<close> sets the timer to 0 ("allow immediate
  first shot"), so two trigger presses 16 ms apart, each followed by a tick, spawn two
  bullets although \<^verbatim>\<open>fireRate\<close> is 100 ms.
\<close>

theorem two_presses_two_projectiles_counterexample:
  "(2 :: real) / 125 < fireRate loadedWeapon
   \<and> 0 < magAmmo loadedWeapon
   \<and> activeBullets loadedWeapon = []
   \<and> map mesh (activeBullets
        (update rangeEnv (2 / 125) (startShooting
          (update rangeEnv (2 / 125) (startShooting loadedWeapon))))) = [0, 2]
   \<and> magAmmo (update rangeEnv (2 / 125) (startShooting
          (update rangeEnv (2 / 125) (startShooting loadedWeapon)))) = magAmmo loadedWeapon - 2"
  using secondPress_simps
  by (simp add: secondPress_def firstPress_def) (simp add: loadedWeapon_def constructor_def)

section \<open>Invariants of the weapon\<close>

text \<open>
  The hypotheses of the theorems above hold in the states the code produces: a target
  collider is visible when it is created, and the bullet list of a new weapon is in order
  of creation and stays so through every tick (so its meshes are distinct). The last
  lemmas of this section put it together: a new weapon is \<open>wellFormed\<close>, and pressing
  the trigger, registering a target and every tick keep it so.
\<close>

lemma createTargetCollider_visible:
  "visible (objects (snd (createTargetCollider t sz w)) (fst (createTargetCollider t sz w)))"
  by (simp add: createTargetCollider_def alloc_def sceneAdd_def Let_def newObject_def)

lemma inCreationOrder_constructor: "inCreationOrder constructor"
  by (simp add: inCreationOrder_def constructor_def)

lemma inCreationOrder_distinct:
  "inCreationOrder w \<Longrightarrow> distinct (map mesh (activeBullets w))"
  by (simp add: inCreationOrder_def strict_sorted_iff)

lemma inCreationOrder_createBulletTrail:
  assumes "inCreationOrder w"
  shows "inCreationOrder (snd (createBulletTrail e p d w))"
proof -
  let ?new = "fst (createBulletTrail e p d w)"
  have s: "sorted_wrt (<) (map mesh (activeBullets w))"
    and l: "\<forall>b \<in> set (activeBullets w). mesh b < nextRef w"
    using assms by (simp_all add: inCreationOrder_def list_all_iff)
  have all: "sorted_wrt (<) (map mesh (activeBullets w @ [?new]))"
    using s l by (simp add: sorted_wrt_append createBulletTrail_mesh)
  have lall: "\<forall>b \<in> set (activeBullets w @ [?new]). mesh b < nextRef w + 2"
    using l by (auto simp: createBulletTrail_mesh)
  have tl_s: "sorted_wrt (<) (map mesh (tl (activeBullets w @ [?new])))"
    using all by (cases "activeBullets w @ [?new]") simp_all
  have tl_l: "\<forall>b \<in> set (tl (activeBullets w @ [?new])). mesh b < nextRef w + 2"
    using lall by (cases "activeBullets w @ [?new]") simp_all
  show ?thesis
    unfolding inCreationOrder_def list_all_iff createBulletTrail_nextRef createBulletTrail_activeBullets
    using all lall tl_s tl_l by simp
qed

lemma inCreationOrder_update:
  assumes "inCreationOrder w"
  shows "inCreationOrder (update e dt w)"
proof (cases "isLoaded w")
  case False
  then show ?thesis using assms by (simp add: update_def)
next
  case True
  let ?w4 = "beforeShooting e dt w"
  have 4: "inCreationOrder ?w4"
    using beforeShooting_onlyRemoves assms by (rule onlyRemoves_inCreationOrder)
  have t: "inCreationOrder (v\<lparr>shootTimer := x\<rparr>) = inCreationOrder v" for v x
    by (simp add: inCreationOrder_def)
  have m: "inCreationOrder (v\<lparr>magAmmo := x\<rparr>) = inCreationOrder v" for v x
    by (simp add: inCreationOrder_def)
  have r: "inCreationOrder (reload v) = inCreationOrder v" for v
    by (simp add: inCreationOrder_def reload_def Let_def)
  have s: "inCreationOrder (snd (shoot e ?w4))"
    using 4 by (simp add: shoot_def Let_def r m inCreationOrder_createBulletTrail)
  obtain fired w' where sh: "shoot e ?w4 = (fired, w')"
    by (cases "shoot e ?w4")
  have s': "inCreationOrder w'"
    using s sh by simp
  show ?thesis
    using True 4 s' by (simp add: update_unfold Let_def t sh)
qed

subsection \<open>Target colliders stay visible\<close>

lemma keepsColliders_refl: "keepsColliders w w"
  by (simp add: keepsColliders_def)

lemma keepsColliders_trans:
  assumes "keepsColliders a b" and "keepsColliders b c"
  shows "keepsColliders a c"
proof -
  have 1: "snd ` set (targetColliders c) \<subseteq> snd ` set (targetColliders a)"
    using assms unfolding keepsColliders_def by blast
  have 2: "nextRef a \<le> nextRef c" and ab: "nextRef a \<le> nextRef b"
    using assms unfolding keepsColliders_def by linarith+
  have 3: "visible (objects c r) = visible (objects a r)" if "r < nextRef a" for r
  proof -
    have "r < nextRef b" using that ab by simp
    then have "visible (objects c r) = visible (objects b r)"
      using assms(2) unfolding keepsColliders_def by blast
    moreover have "visible (objects b r) = visible (objects a r)"
      using assms(1) that unfolding keepsColliders_def by blast
    ultimately show ?thesis by simp
  qed
  show ?thesis
    unfolding keepsColliders_def using 1 2 3 by blast
qed

lemma keepsColliders_visible:
  assumes "keepsColliders w w'" and "collidersVisible w"
  shows "collidersVisible w'"
proof -
  have "c < nextRef w' \<and> visible (objects w' c)" if "c \<in> snd ` set (targetColliders w')" for c
  proof -
    have c: "c \<in> snd ` set (targetColliders w)"
      using assms(1) that unfolding keepsColliders_def by blast
    then have "c < nextRef w" "visible (objects w c)"
      using assms(2) unfolding collidersVisible_def by blast+
    then show ?thesis
      using assms(1) unfolding keepsColliders_def by (metis order_less_le_trans)
  qed
  then show ?thesis
    unfolding collidersVisible_def by blast
qed

lemma fold_keepsColliders:
  assumes "\<And>x v. keepsColliders v (f x v)"
  shows "keepsColliders w (fold f xs w)"
proof (induction xs arbitrary: w)
  case Nil
  then show ?case by (simp add: keepsColliders_refl)
next
  case (Cons x xs)
  show ?case
    using assms [of w x] Cons.IH [of "f x w"] by (auto intro: keepsColliders_trans)
qed

lemma setPosition_keepsColliders: "keepsColliders w (setPosition r p w)"
  by (simp add: keepsColliders_def setPosition_def)

lemma sceneRemove_keepsColliders: "keepsColliders w (sceneRemove r w)"
  by (simp add: keepsColliders_def sceneRemove_def)

lemma removeBulletCollider_keepsColliders: "keepsColliders w (removeBulletCollider m w)"
  by (simp add: keepsColliders_def removeBulletCollider_def sceneRemove_def split: option.splits)

lemma removeHitBullet_keepsColliders: "keepsColliders w (removeHitBullet b w)"
  by (simp add: keepsColliders_def removeHitBullet_def Let_def removeBulletCollider_def
      sceneRemove_def split: option.splits)

lemma Weapon_onTargetHit_keepsColliders: "keepsColliders w (Weapon_onTargetHit t h w)"
  by (simp add: keepsColliders_def Weapon_onTargetHit_def)

lemma removeTargetCollider_keepsColliders: "keepsColliders w (removeTargetCollider t w)"
proof -
  have "snd ` set (AList.delete t xs) \<subseteq> snd ` set xs" for xs :: "(ref \<times> ref) list"
    by (auto simp: AList.delete_eq)
  then show ?thesis
    by (simp add: keepsColliders_def removeTargetCollider_def sceneRemove_def split: option.splits)
qed

lemma advanceBullet_keepsColliders: "keepsColliders w (advanceBullet dt b w)"
  by (simp add: keepsColliders_def advanceBullet_def Let_def setPosition_def split: option.splits)

lemma checkBulletColliderCollision_keepsColliders:
  "keepsColliders w (snd (checkBulletColliderCollision e w b prev))"
proof -
  have h: "keepsColliders w (removeHitBullet b w')" if "keepsColliders w w'" for w'
    using that removeHitBullet_keepsColliders keepsColliders_trans by blast
  have p: "keepsColliders w (setPosition r p (setPosition r' p' w))" for r p r' p'
    using setPosition_keepsColliders keepsColliders_trans by blast
  have t: "keepsColliders w (Weapon_onTargetHit t x (setPosition r p (setPosition r' p' w)))"
    for t x r p r' p'
    using p Weapon_onTargetHit_keepsColliders keepsColliders_trans by blast
  show ?thesis
    by (simp add: checkBulletColliderCollision_def Let_def keepsColliders_refl h p t
        split: option.splits list.splits)
qed

lemma updateBullet_keepsColliders: "keepsColliders w (updateBullet e dt i w)"
proof (cases "i < length (activeBullets w)")
  case False
  then show ?thesis by (simp add: updateBullet_def keepsColliders_refl)
next
  case True
  define b where "b = activeBullets w ! i"
  define w3 where "w3 = snd (checkBulletColliderCollision e (advanceBullet dt b w) b
                           (position (objects w (mesh b))))"
  define w4 where "w4 = w3\<lparr>activeBullets :=
                     map (\<lambda>x. if mesh x = mesh b then x\<lparr>life := life b - dt\<rparr> else x)
                       (activeBullets w3)\<rparr>"
  let ?w5 = "sceneRemove (mesh b) (removeBulletCollider (mesh b) w4)"
  have eq: "updateBullet e dt i w =
          (if life b - dt \<le> 0
           then ?w5\<lparr>activeBullets := take i (activeBullets ?w5) @ drop (Suc i) (activeBullets ?w5)\<rparr>
           else w4)"
    by (simp only: updateBullet_def Let_def b_def w3_def w4_def True if_True)
  have 3: "keepsColliders w w3"
    unfolding w3_def
    using advanceBullet_keepsColliders checkBulletColliderCollision_keepsColliders
      keepsColliders_trans by blast
  have 4: "keepsColliders w w4"
    using 3 by (simp add: keepsColliders_def w4_def)
  have "keepsColliders w4 ?w5"
    using removeBulletCollider_keepsColliders sceneRemove_keepsColliders keepsColliders_trans
    by blast
  then have 5: "keepsColliders w (?w5\<lparr>activeBullets := bs\<rparr>)" for bs
    using 4 keepsColliders_trans [of w w4 ?w5] by (simp add: keepsColliders_def)
  show ?thesis
    using 4 5 by (simp add: eq)
qed

lemma updateBullets_keepsColliders: "keepsColliders w (updateBullets e dt w)"
proof -
  have "keepsColliders v (updateBulletsFrom e dt n v)" for n v
  proof (induction n arbitrary: v)
    case 0
    then show ?case by (simp add: keepsColliders_refl)
  next
    case (Suc n)
    show ?case
      using Suc.IH [of "updateBullet e dt n v"] updateBullet_keepsColliders [of v e dt n]
      by (auto intro: keepsColliders_trans)
  qed
  then show ?thesis by (simp add: updateBullets_def)
qed

lemma updateTargetColliders_keepsColliders: "keepsColliders w (updateTargetColliders w)"
  unfolding updateTargetColliders_def
  by (rule fold_keepsColliders)
     (auto simp: setPosition_keepsColliders removeTargetCollider_keepsColliders)

lemma createBulletTrail_keepsColliders: "keepsColliders w (snd (createBulletTrail e p d w))"
  by (auto simp: keepsColliders_def createBulletTrail_def createBulletCollider_def alloc_def
      sceneAdd_def sceneRemove_def Let_def split: prod.splits list.splits)

lemma createTargetCollider_collidersVisible:
  assumes "collidersVisible w"
  shows "collidersVisible (snd (createTargetCollider t sz w))"
proof -
  have "snd ` set (AList.update t c xs) \<subseteq> insert c (snd ` set xs)" for c and xs :: "(ref \<times> ref) list"
    by (induction xs) auto
  then have s: "snd ` set (targetColliders (snd (createTargetCollider t sz w)))
                \<subseteq> insert (nextRef w) (snd ` set (targetColliders w))"
    by (simp add: createTargetCollider_def alloc_def sceneAdd_def Let_def)
  have n: "nextRef (snd (createTargetCollider t sz w)) = Suc (nextRef w)"
    and o: "visible (objects (snd (createTargetCollider t sz w)) c)
              = (if c = nextRef w then True else visible (objects w c))" for c
    by (simp_all add: createTargetCollider_def alloc_def sceneAdd_def Let_def newObject_def)
  have "c < Suc (nextRef w) \<and> (if c = nextRef w then True else visible (objects w c))"
    if "c \<in> snd ` set (targetColliders (snd (createTargetCollider t sz w)))" for c
  proof (cases "c = nextRef w")
    case True
    then show ?thesis by simp
  next
    case False
    then have "c \<in> snd ` set (targetColliders w)"
      using s that by blast
    then have "c < nextRef w \<and> visible (objects w c)"
      using assms unfolding collidersVisible_def by blast
    then show ?thesis using False by simp
  qed
  then show ?thesis
    unfolding collidersVisible_def n o by blast
qed

lemma scanForNewTargets_collidersVisible:
  assumes "collidersVisible w"
  shows "collidersVisible (scanForNewTargets w)"
proof -
  have "collidersVisible (fold f xs v)"
    if "collidersVisible v" and "\<And>x u. collidersVisible u \<Longrightarrow> collidersVisible (f x u)"
    for f :: "ref \<Rightarrow> weapon \<Rightarrow> weapon" and xs v
    using that by (induction xs arbitrary: v) simp_all
  then show ?thesis
    unfolding scanForNewTargets_def
    using assms by (simp add: createTargetCollider_collidersVisible)
qed

subsection \<open>Bullets in flight keep their colliders\<close>

lemma spliceBullet_subset: "set (spliceBullet m bs) \<subseteq> set bs"
  by (induction bs) auto

lemma haveColliders_removeHitBullet:
  assumes "haveColliders w" and "distinct (map mesh (activeBullets w))"
  shows "haveColliders (removeHitBullet b w)"
proof -
  have a: "activeBullets (removeHitBullet b w) = spliceBullet (mesh b) (activeBullets w)"
    by (simp add: removeHitBullet_def Let_def sceneRemove_def removeBulletCollider_def
        split: option.splits)
  have c: "bulletColliders (removeHitBullet b w) m = bulletColliders w m" if "m \<noteq> mesh b" for m
    using that
    by (simp add: removeHitBullet_def Let_def sceneRemove_def removeBulletCollider_def
        split: option.splits)
  have "bulletColliders (removeHitBullet b w) (mesh x) \<noteq> None"
    if "x \<in> set (spliceBullet (mesh b) (activeBullets w))" for x
  proof -
    have "mesh x \<noteq> mesh b"
      using that mesh_spliceBullet [OF assms(2), of "mesh b"] by (metis imageI)
    moreover have "x \<in> set (activeBullets w)"
      using that spliceBullet_subset by fastforce
    ultimately show ?thesis
      using assms(1) c unfolding haveColliders_def by simp
  qed
  then show ?thesis
    unfolding haveColliders_def a by blast
qed

lemma haveColliders_frame:
  assumes "haveColliders w" and "activeBullets w' = activeBullets w"
    and "bulletColliders w' = bulletColliders w"
  shows "haveColliders w'"
  using assms by (simp add: haveColliders_def)

lemma checkBulletColliderCollision_bullets:
  "activeBullets (snd (checkBulletColliderCollision e w b prev)) = activeBullets w
     \<and> bulletColliders (snd (checkBulletColliderCollision e w b prev)) = bulletColliders w
   \<or> (\<exists>w'. snd (checkBulletColliderCollision e w b prev) = removeHitBullet b w'
          \<and> activeBullets w' = activeBullets w \<and> bulletColliders w' = bulletColliders w)"
proof -
  have r: "\<exists>w'. removeHitBullet b v = removeHitBullet b w'
          \<and> activeBullets w' = activeBullets w \<and> bulletColliders w' = bulletColliders w"
    if "activeBullets v = activeBullets w \<and> bulletColliders v = bulletColliders w" for v
    using that by blast
  show ?thesis
    by (simp add: checkBulletColliderCollision_def Let_def split: option.splits list.splits)
       (auto intro!: r simp: setPosition_def Weapon_onTargetHit_def)
qed

lemma distinct_spliceBullet:
  "distinct (map mesh bs) \<Longrightarrow> distinct (map mesh (spliceBullet m bs))"
  using spliceBullet_subset [of m] by (induction bs) auto

lemma haveColliders_updateBullet:
  assumes "haveColliders w" and "distinct (map mesh (activeBullets w))"
  shows "haveColliders (updateBullet e dt i w)"
proof (cases "i < length (activeBullets w)")
  case False
  then show ?thesis using assms(1) by (simp add: updateBullet_def)
next
  case True
  define b where "b = activeBullets w ! i"
  define w2 where "w2 = advanceBullet dt b w"
  define w3 where "w3 = snd (checkBulletColliderCollision e w2 b (position (objects w (mesh b))))"
  define w4 where "w4 = w3\<lparr>activeBullets :=
                     map (\<lambda>x. if mesh x = mesh b then x\<lparr>life := life b - dt\<rparr> else x)
                       (activeBullets w3)\<rparr>"
  let ?w5 = "sceneRemove (mesh b) (removeBulletCollider (mesh b) w4)"
  have eq: "updateBullet e dt i w =
          (if life b - dt \<le> 0
           then ?w5\<lparr>activeBullets := take i (activeBullets ?w5) @ drop (Suc i) (activeBullets ?w5)\<rparr>
           else w4)"
    by (simp only: updateBullet_def Let_def b_def w2_def w3_def w4_def True if_True)
  have 2: "haveColliders w2" "activeBullets w2 = activeBullets w"
    using assms(1) by (simp_all add: w2_def haveColliders_def advanceBullet_frame)
  have d2: "distinct (map mesh (activeBullets w2))"
    using assms(2) 2(2) by simp
  consider (miss) "activeBullets w3 = activeBullets w2" "bulletColliders w3 = bulletColliders w2"
    | (hit) w' where "w3 = removeHitBullet b w'" "activeBullets w' = activeBullets w2"
        "bulletColliders w' = bulletColliders w2"
    using checkBulletColliderCollision_bullets [of e w2 b "position (objects w (mesh b))"]
    unfolding w3_def by blast
  then have 3: "haveColliders w3 \<and> distinct (map mesh (activeBullets w3))
      \<and> (\<forall>j < length (activeBullets w3). mesh (activeBullets w3 ! j) = mesh b \<longrightarrow> j = i)"
  proof cases
    case miss
    have "j = i" if "j < length (activeBullets w)" "mesh (activeBullets w ! j) = mesh b" for j
      using that True assms(2) unfolding b_def
      by (metis distinct_conv_nth length_map nth_map)
    then show ?thesis
      using 2 d2 miss by (simp add: haveColliders_def)
  next
    case hit
    have h: "haveColliders w'" and d: "distinct (map mesh (activeBullets w'))"
      using 2 d2 hit by (simp_all add: haveColliders_def)
    have a: "activeBullets w3 = spliceBullet (mesh b) (activeBullets w')"
      by (simp add: hit(1) removeHitBullet_def Let_def sceneRemove_def removeBulletCollider_def
          split: option.splits)
    have "mesh b \<notin> mesh ` set (activeBullets w3)"
      unfolding a using mesh_spliceBullet [OF d] .
    then have "mesh (activeBullets w3 ! j) \<noteq> mesh b" if "j < length (activeBullets w3)" for j
      using that by (metis imageI nth_mem)
    then have n: "\<forall>j < length (activeBullets w3). mesh (activeBullets w3 ! j) = mesh b \<longrightarrow> j = i"
      by blast
    have h3: "haveColliders w3"
      unfolding hit(1) by (rule haveColliders_removeHitBullet [OF h d])
    have d3: "distinct (map mesh (activeBullets w3))"
      unfolding a by (rule distinct_spliceBullet [OF d])
    show ?thesis
      using h3 d3 n by blast
  qed
  have m4: "map mesh (activeBullets w4) = map mesh (activeBullets w3)"
    using map_mesh_life [of "mesh b" "life b - dt" "activeBullets w3"]
    by (simp add: w4_def del: map_map)
  have 4: "haveColliders w4"
    using 3 by (auto simp: haveColliders_def w4_def)
  have only_i: "j = i" if "j < length (activeBullets w4)" "mesh (activeBullets w4 ! j) = mesh b" for j
  proof -
    have "mesh (activeBullets w4 ! j) = mesh (activeBullets w3 ! j)"
      using that(1) m4 by (metis length_map nth_map)
    then show ?thesis
      using 3 that m4 by (metis length_map)
  qed
  have 5: "haveColliders (?w5\<lparr>activeBullets := take i (activeBullets ?w5) @ drop (Suc i) (activeBullets ?w5)\<rparr>)"
  proof -
    have a5: "activeBullets ?w5 = activeBullets w4"
      by (simp add: sceneRemove_def removeBulletCollider_frame)
    have c5: "bulletColliders ?w5 m = bulletColliders w4 m" if "m \<noteq> mesh b" for m
      using that by (simp add: sceneRemove_def removeBulletCollider_def split: option.splits)
    have "bulletColliders ?w5 (mesh x) \<noteq> None"
      if x: "x \<in> set (take i (activeBullets w4) @ drop (Suc i) (activeBullets w4))" for x
    proof -
      have xin: "x \<in> set (activeBullets w4)"
        using x by (auto dest: in_set_takeD in_set_dropD)
      have "mesh x \<noteq> mesh b"
      proof
        assume e: "mesh x = mesh b"
        from x obtain j where j: "j < length (activeBullets w4)" "activeBullets w4 ! j = x" "j \<noteq> i"
        proof (cases "x \<in> set (take i (activeBullets w4))")
          case True
          then obtain k where "k < length (take i (activeBullets w4))" "take i (activeBullets w4) ! k = x"
            by (meson in_set_conv_nth)
          then have "k < length (activeBullets w4)" "activeBullets w4 ! k = x" "k \<noteq> i"
            by auto
          then show ?thesis using that by blast
        next
          case False
          then have "x \<in> set (drop (Suc i) (activeBullets w4))" using x by simp
          then obtain k where k: "k < length (drop (Suc i) (activeBullets w4))"
              "drop (Suc i) (activeBullets w4) ! k = x"
            by (meson in_set_conv_nth)
          then have "Suc i + k < length (activeBullets w4)" "activeBullets w4 ! (Suc i + k) = x"
              "Suc i + k \<noteq> i"
            by auto
          then show ?thesis using that by blast
        qed
        then show False using only_i [of j] e by simp
      qed
      then show ?thesis
        using 4 xin c5 unfolding haveColliders_def by simp
    qed
    then show ?thesis
      unfolding haveColliders_def by (simp add: a5)
  qed
  show ?thesis
    using 4 5 by (simp add: eq)
qed

lemma wellFormed_updateBullet:
  assumes "wellFormed w"
  shows "wellFormed (updateBullet e dt i w)"
proof -
  have o: "inCreationOrder (updateBullet e dt i w)"
    using updateBullet_onlyRemoves assms onlyRemoves_inCreationOrder
    unfolding wellFormed_def by blast
  have h: "haveColliders (updateBullet e dt i w)"
    using assms haveColliders_updateBullet inCreationOrder_distinct
    unfolding wellFormed_def by blast
  have v: "collidersVisible (updateBullet e dt i w)"
    using assms updateBullet_keepsColliders keepsColliders_visible
    unfolding wellFormed_def by blast
  show ?thesis
    using o h v by (simp add: wellFormed_def)
qed

lemma wellFormed_updateBullets:
  assumes "wellFormed w"
  shows "wellFormed (updateBullets e dt w)"
proof -
  have "wellFormed (updateBulletsFrom e dt n v)" if "wellFormed v" for n v
    using that by (induction n arbitrary: v) (simp_all add: wellFormed_updateBullet)
  then show ?thesis
    using assms by (simp add: updateBullets_def)
qed

lemma haveColliders_fold:
  assumes "haveColliders v"
    and "\<And>x u. activeBullets (f x u) = activeBullets u \<and> bulletColliders (f x u) = bulletColliders u"
  shows "haveColliders (fold f xs v)"
  using assms(1)
proof (induction xs arbitrary: v)
  case Nil
  then show ?case by simp
next
  case (Cons x xs)
  have "haveColliders (f x v)"
    using Cons.prems assms(2) [of x v] by (simp add: haveColliders_def)
  then show ?case
    using Cons.IH by simp
qed

lemma wellFormed_scanForNewTargets:
  assumes "wellFormed w"
  shows "wellFormed (scanForNewTargets w)"
proof -
  have h: "haveColliders (scanForNewTargets w)"
    unfolding scanForNewTargets_def
    by (rule haveColliders_fold)
       (use assms in \<open>simp_all add: wellFormed_def createTargetCollider_def alloc_def sceneAdd_def Let_def\<close>)
  show ?thesis
    using assms h scanForNewTargets_onlyRemoves [of w] onlyRemoves_inCreationOrder
      scanForNewTargets_collidersVisible
    unfolding wellFormed_def by blast
qed

lemma wellFormed_updateTargetColliders:
  assumes "wellFormed w"
  shows "wellFormed (updateTargetColliders w)"
proof -
  have h: "haveColliders (updateTargetColliders w)"
    unfolding updateTargetColliders_def
    by (rule haveColliders_fold)
       (use assms in \<open>auto simp: wellFormed_def removeTargetCollider_def sceneRemove_def
          setPosition_def split: option.splits\<close>)
  show ?thesis
    using assms h updateTargetColliders_onlyRemoves [of w] onlyRemoves_inCreationOrder
      updateTargetColliders_keepsColliders keepsColliders_visible
    unfolding wellFormed_def by blast
qed

lemma wellFormed_createBulletTrail:
  assumes "wellFormed w"
  shows "wellFormed (snd (createBulletTrail e p d w))"
proof -
  let ?w' = "snd (createBulletTrail e p d w)"
  have sub: "set (activeBullets ?w') \<subseteq> insert (fst (createBulletTrail e p d w)) (set (activeBullets w))"
    by (auto simp: createBulletTrail_activeBullets dest: list.set_sel(2) [rotated])
  have "bulletColliders ?w' (mesh x) \<noteq> None" if "x \<in> set (activeBullets ?w')" for x
  proof (cases "x = fst (createBulletTrail e p d w)")
    case True
    then show ?thesis by (simp add: createBulletTrail_bulletColliders createBulletTrail_mesh)
  next
    case False
    then have "x \<in> set (activeBullets w)" using sub that by blast
    then show ?thesis
      using assms by (simp add: wellFormed_def haveColliders_def createBulletTrail_bulletColliders)
  qed
  then have h: "haveColliders ?w'"
    unfolding haveColliders_def by blast
  show ?thesis
    using assms h inCreationOrder_createBulletTrail createBulletTrail_keepsColliders
      keepsColliders_visible
    unfolding wellFormed_def by blast
qed

lemma wellFormed_fields:
  "wellFormed (w\<lparr>shootTimer := t\<rparr>) = wellFormed w"
  "wellFormed (w\<lparr>magAmmo := m\<rparr>) = wellFormed w"
  "wellFormed (w\<lparr>scanCounter := n\<rparr>) = wellFormed w"
  "wellFormed (w\<lparr>isShooting := s\<rparr>) = wellFormed w"
  "wellFormed (reload w) = wellFormed w"
  by (simp_all add: wellFormed_def inCreationOrder_def haveColliders_def collidersVisible_def
      reload_def Let_def)

lemma wellFormed_constructor: "wellFormed constructor"
  by (simp add: wellFormed_def inCreationOrder_def haveColliders_def collidersVisible_def
      constructor_def)

lemma wellFormed_update:
  assumes "wellFormed w"
  shows "wellFormed (update e dt w)"
proof (cases "isLoaded w")
  case False
  then show ?thesis using assms by (simp add: update_def)
next
  case True
  let ?w4 = "beforeShooting e dt w"
  have 4: "wellFormed ?w4"
    using assms
    by (simp add: beforeShooting_def Let_def wellFormed_updateTargetColliders
        wellFormed_updateBullets wellFormed_scanForNewTargets wellFormed_fields)
  obtain fired w' where sh: "shoot e ?w4 = (fired, w')"
    by (cases "shoot e ?w4")
  have "wellFormed (snd (shoot e ?w4))"
    using 4 by (simp add: shoot_def Let_def wellFormed_fields wellFormed_createBulletTrail)
  then have s: "wellFormed w'" using sh by simp
  show ?thesis
    using True 4 s by (simp add: update_unfold Let_def sh wellFormed_fields)
qed

lemma wellFormed_startShooting: "wellFormed w \<Longrightarrow> wellFormed (startShooting w)"
  by (simp add: startShooting_def wellFormed_def inCreationOrder_def haveColliders_def
      collidersVisible_def)

lemma wellFormed_registerTarget:
  assumes "wellFormed w"
  shows "wellFormed (registerTarget t sz w)"
proof -
  let ?v = "w\<lparr>objects := (objects w)(t := (objects w t)\<lparr>isTarget := True\<rparr>)\<rparr>"
  have v: "wellFormed ?v"
    using assms
    by (auto simp: wellFormed_def inCreationOrder_def haveColliders_def collidersVisible_def)
  have h: "haveColliders (snd (createTargetCollider t sz ?v))"
    using v by (simp add: wellFormed_def haveColliders_def createTargetCollider_def alloc_def
        sceneAdd_def Let_def)
  show ?thesis
    unfolding registerTarget_def
    using v h createTargetCollider_onlyRemoves [of ?v t sz] onlyRemoves_inCreationOrder
      createTargetCollider_collidersVisible
    unfolding wellFormed_def by blast
qed

lemma wellFormed_hypotheses:
  assumes "wellFormed w"
  shows "inCreationOrder w"
    and "distinct (map mesh (activeBullets w))"
    and "list_all (\<lambda>c. visible (objects w c)) (map snd (targetColliders w))"
    and "i < length (activeBullets w) \<Longrightarrow> \<exists>c. bulletColliders w (mesh (activeBullets w ! i)) = Some c"
  using assms inCreationOrder_distinct
  by (auto simp: wellFormed_def haveColliders_def collidersVisible_def list_all_iff)

section \<open>The bullet loop over a tick\<close>

subsection \<open>What a round of the bullet loop touches\<close>

lemma touchesOnly_refl: "touchesOnly S v v"
  by (simp add: touchesOnly_def)

lemma touchesOnly_trans:
  assumes "touchesOnly S a b" and "touchesOnly S b c"
  shows "touchesOnly S a c"
proof -
  have 1: "\<forall>r. visible (objects c r) = visible (objects a r)
           \<and> isTarget (objects c r) = isTarget (objects a r)
           \<and> parentTarget (objects c r) = parentTarget (objects a r)"
    using assms by (simp add: touchesOnly_def)
  have 2: "\<forall>r. r \<notin> S \<longrightarrow> objects c r = objects a r"
    using assms by (simp add: touchesOnly_def)
  have 3: "targetColliders c = targetColliders a \<and> nextRef c = nextRef a"
    using assms by (simp add: touchesOnly_def)
  have 4: "bulletColliders c k = bulletColliders a k \<or> bulletColliders c k = None" for k
  proof -
    have "bulletColliders c k = bulletColliders b k \<or> bulletColliders c k = None"
      using assms(2) by (simp add: touchesOnly_def)
    moreover have "bulletColliders b k = bulletColliders a k \<or> bulletColliders b k = None"
      using assms(1) by (simp add: touchesOnly_def)
    ultimately show ?thesis by auto
  qed
  obtain hs where hs: "targetHits b = targetHits a @ hs"
    using assms(1) unfolding touchesOnly_def by blast
  obtain hs' where hs': "targetHits c = targetHits b @ hs'"
    using assms(2) unfolding touchesOnly_def by blast
  have 5: "\<exists>xs. targetHits c = targetHits a @ xs"
    using hs hs' by simp
  show ?thesis
    unfolding touchesOnly_def using 1 2 3 4 5 by blast
qed

lemma touchesOnly_mono:
  assumes "touchesOnly S v v'" and "S \<subseteq> T"
  shows "touchesOnly T v v'"
  using assms by (auto simp: touchesOnly_def)

lemma touchesOnly_activeBullets:
  "touchesOnly S v v' \<Longrightarrow> touchesOnly S v (v'\<lparr>activeBullets := bs\<rparr>)"
  by (simp add: touchesOnly_def)

lemma setPosition_touchesOnly: "r \<in> S \<Longrightarrow> touchesOnly S w (setPosition r p w)"
  by (simp add: touchesOnly_def setPosition_def)

lemma sceneRemove_touchesOnly: "r \<in> S \<Longrightarrow> touchesOnly S w (sceneRemove r w)"
  by (simp add: touchesOnly_def sceneRemove_def)

lemma removeBulletCollider_touchesOnly:
  assumes "\<And>c. bulletColliders w m = Some c \<Longrightarrow> c \<in> S"
  shows "touchesOnly S w (removeBulletCollider m w)"
  using assms
  by (simp add: touchesOnly_def removeBulletCollider_def sceneRemove_def split: option.splits)

lemma removeHitBullet_touchesOnly:
  assumes "mesh b \<in> S" and "\<And>c. bulletColliders w (mesh b) = Some c \<Longrightarrow> c \<in> S"
  shows "touchesOnly S w (removeHitBullet b w)"
proof -
  let ?w1 = "removeBulletCollider (mesh b) w"
  have 1: "touchesOnly S w ?w1"
    using assms(2) by (rule removeBulletCollider_touchesOnly)
  have 2: "touchesOnly S ?w1 (sceneRemove (mesh b) ?w1)"
    using assms(1) by (rule sceneRemove_touchesOnly)
  have "touchesOnly S w (sceneRemove (mesh b) ?w1)"
    using 1 2 by (rule touchesOnly_trans)
  then show ?thesis
    unfolding removeHitBullet_def Let_def by (rule touchesOnly_activeBullets)
qed

lemma touchesOnly_collider:
  assumes "touchesOnly S w w'" and "\<And>c. bulletColliders w m = Some c \<Longrightarrow> c \<in> S"
    and "bulletColliders w' m = Some c"
  shows "c \<in> S"
proof -
  have "bulletColliders w' m = bulletColliders w m \<or> bulletColliders w' m = None"
    using assms(1) by (simp add: touchesOnly_def)
  then show ?thesis
    using assms(2,3) by auto
qed

lemma Weapon_onTargetHit_touchesOnly: "touchesOnly S w (Weapon_onTargetHit t h w)"
  by (simp add: touchesOnly_def Weapon_onTargetHit_def)

lemma advanceBullet_touchesOnly:
  assumes "mesh b \<in> S" and "\<And>c. bulletColliders w (mesh b) = Some c \<Longrightarrow> c \<in> S"
  shows "touchesOnly S w (advanceBullet dt b w)"
  using assms
  by (simp add: touchesOnly_def advanceBullet_def Let_def setPosition_def split: option.splits)

lemma checkBulletColliderCollision_touchesOnly:
  assumes "mesh b \<in> S" and "\<And>c. bulletColliders w (mesh b) = Some c \<Longrightarrow> c \<in> S"
  shows "touchesOnly S w (snd (checkBulletColliderCollision e w b prev))"
proof -
  have h: "touchesOnly S w (removeHitBullet b w')" if "touchesOnly S w w'" for w'
  proof -
    have "touchesOnly S w' (removeHitBullet b w')"
      using assms(1) touchesOnly_collider [OF that assms(2)]
      by (rule removeHitBullet_touchesOnly)
    then show ?thesis
      using that touchesOnly_trans by blast
  qed
  have p: "touchesOnly S w (setPosition c p (setPosition (mesh b) p' w))"
    if "bulletColliders w (mesh b) = Some c" for c p p'
    using setPosition_touchesOnly [of "mesh b" S w p'] setPosition_touchesOnly [of c S _ p]
      assms that touchesOnly_trans by blast
  have t: "touchesOnly S w (Weapon_onTargetHit t x (setPosition c p (setPosition (mesh b) p' w)))"
    if "bulletColliders w (mesh b) = Some c" for t x c p p'
    using p [OF that] Weapon_onTargetHit_touchesOnly touchesOnly_trans by blast
  show ?thesis
    by (simp add: checkBulletColliderCollision_def Let_def touchesOnly_refl h p t
        split: option.splits list.splits)
qed

lemma spliceBullet_nth:
  assumes "distinct (map mesh bs)" and "i < length bs"
  shows "spliceBullet (mesh (bs ! i)) bs = take i bs @ drop (Suc i) bs"
  using assms
proof (induction bs arbitrary: i)
  case Nil
  then show ?case by simp
next
  case (Cons a bs)
  show ?case
  proof (cases i)
    case 0
    then show ?thesis by simp
  next
    case (Suc k)
    have "bs ! k \<in> set bs"
      using Cons.prems Suc by simp
    then have "mesh (bs ! k) \<in> mesh ` set bs"
      by (rule imageI)
    moreover have "mesh a \<notin> mesh ` set bs"
      using Cons.prems by simp
    ultimately have "mesh (bs ! k) \<noteq> mesh a"
      by metis
    then show ?thesis
      using Cons.IH [of k] Cons.prems Suc by simp
  qed
qed

lemma take_map_unchanged:
  assumes "\<And>k. k < i \<Longrightarrow> k < length xs \<Longrightarrow> f (xs ! k) = xs ! k"
  shows "take i (map f xs) = take i xs"
  using assms by (intro nth_equalityI) simp_all

lemma updateBullet_prefix:
  assumes "i < length (activeBullets w)" and "distinct (map mesh (activeBullets w))"
  shows "take i (activeBullets (updateBullet e dt i w)) = take i (activeBullets w)"
proof -
  define b where "b = activeBullets w ! i"
  define w2 where "w2 = advanceBullet dt b w"
  define w3 where "w3 = snd (checkBulletColliderCollision e w2 b (position (objects w (mesh b))))"
  define w4 where "w4 = w3\<lparr>activeBullets :=
                     map (\<lambda>x. if mesh x = mesh b then x\<lparr>life := life b - dt\<rparr> else x)
                       (activeBullets w3)\<rparr>"
  let ?w5 = "sceneRemove (mesh b) (removeBulletCollider (mesh b) w4)"
  have eq: "updateBullet e dt i w =
          (if life b - dt \<le> 0
           then ?w5\<lparr>activeBullets := take i (activeBullets ?w5) @ drop (Suc i) (activeBullets ?w5)\<rparr>
           else w4)"
    by (simp only: updateBullet_def Let_def b_def w2_def w3_def w4_def assms(1) if_True)
  have a2: "activeBullets w2 = activeBullets w"
    by (simp add: w2_def advanceBullet_frame)
  have other: "mesh (activeBullets w ! k) \<noteq> mesh b" if "k < i" for k
  proof -
    have "k < length (map mesh (activeBullets w))" "i < length (map mesh (activeBullets w))"
      using that assms(1) by simp_all
    then have "(map mesh (activeBullets w) ! k = map mesh (activeBullets w) ! i) = (k = i)"
      using assms(2) by (rule nth_eq_iff_index_eq [rotated])
    then show ?thesis
      using that assms(1) by (simp add: b_def)
  qed
  have "activeBullets w3 = activeBullets w
      \<or> activeBullets w3 = take i (activeBullets w) @ drop (Suc i) (activeBullets w)"
  proof -
    have "spliceBullet (mesh b) (activeBullets w) = take i (activeBullets w) @ drop (Suc i) (activeBullets w)"
      unfolding b_def by (rule spliceBullet_nth [OF assms(2,1)])
    moreover have "activeBullets (removeHitBullet b w') = spliceBullet (mesh b) (activeBullets w')"
      for w'
      by (simp add: removeHitBullet_def Let_def sceneRemove_def removeBulletCollider_def
          split: option.splits)
    ultimately show ?thesis
      using checkBulletColliderCollision_bullets [of e w2 b "position (objects w (mesh b))"]
      unfolding w3_def [symmetric] a2
      by auto
  qed
  then have 3: "take i (activeBullets w3) = take i (activeBullets w)"
    using assms(1) by auto
  have 4: "take i (activeBullets w4) = take i (activeBullets w)"
  proof -
    have "take i (map (\<lambda>x. if mesh x = mesh b then x\<lparr>life := life b - dt\<rparr> else x) (activeBullets w3))
          = map (\<lambda>x. if mesh x = mesh b then x\<lparr>life := life b - dt\<rparr> else x) (take i (activeBullets w))"
      using 3 by (simp add: take_map)
    also have "\<dots> = take i (activeBullets w)"
    proof (rule map_idI)
      fix x
      assume "x \<in> set (take i (activeBullets w))"
      then obtain k where "k < i" "k < length (activeBullets w)" "x = activeBullets w ! k"
        by (auto simp: in_set_conv_nth)
      then show "(if mesh x = mesh b then x\<lparr>life := life b - dt\<rparr> else x) = x"
        using other by simp
    qed
    finally show ?thesis by (simp add: w4_def)
  qed
  have a5: "activeBullets ?w5 = activeBullets w4"
    by (simp add: sceneRemove_def removeBulletCollider_frame)
  have 5: "take i (take i (activeBullets w4) @ drop (Suc i) (activeBullets w4)) = take i (activeBullets w4)"
    by (cases "i \<le> length (activeBullets w4)") simp_all
  show ?thesis
    using 4 5 by (simp add: eq a5)
qed

lemma updateBullet_touchesOnly:
  assumes "i < length (activeBullets w)"
    and "mesh (activeBullets w ! i) \<in> S"
    and "\<And>c. bulletColliders w (mesh (activeBullets w ! i)) = Some c \<Longrightarrow> c \<in> S"
  shows "touchesOnly S w (updateBullet e dt i w)"
proof -
  define b where "b = activeBullets w ! i"
  define w2 where "w2 = advanceBullet dt b w"
  define w3 where "w3 = snd (checkBulletColliderCollision e w2 b (position (objects w (mesh b))))"
  define w4 where "w4 = w3\<lparr>activeBullets :=
                     map (\<lambda>x. if mesh x = mesh b then x\<lparr>life := life b - dt\<rparr> else x)
                       (activeBullets w3)\<rparr>"
  let ?w5 = "sceneRemove (mesh b) (removeBulletCollider (mesh b) w4)"
  have eq: "updateBullet e dt i w =
          (if life b - dt \<le> 0
           then ?w5\<lparr>activeBullets := take i (activeBullets ?w5) @ drop (Suc i) (activeBullets ?w5)\<rparr>
           else w4)"
    by (simp only: updateBullet_def Let_def b_def w2_def w3_def w4_def assms(1) if_True)
  have 2: "touchesOnly S w w2"
    unfolding w2_def using assms(2,3) b_def by (intro advanceBullet_touchesOnly) simp_all
  have "touchesOnly S w2 w3"
    unfolding w3_def using assms(2,3) b_def
    by (intro checkBulletColliderCollision_touchesOnly) (simp_all add: w2_def advanceBullet_frame)
  then have 3: "touchesOnly S w w3"
    using 2 touchesOnly_trans by blast
  have 4: "touchesOnly S w w4"
    unfolding w4_def using 3 by (rule touchesOnly_activeBullets)
  have "touchesOnly S w4 (removeBulletCollider (mesh b) w4)"
    using touchesOnly_collider [OF 4 assms(3) [folded b_def]]
    by (rule removeBulletCollider_touchesOnly)
  moreover have "touchesOnly S (removeBulletCollider (mesh b) w4) ?w5"
    using assms(2) b_def by (intro sceneRemove_touchesOnly) simp
  ultimately have "touchesOnly S w4 ?w5"
    by (rule touchesOnly_trans)
  then have "touchesOnly S w ?w5"
    using 4 touchesOnly_trans by blast
  then have 5: "touchesOnly S w (?w5\<lparr>activeBullets := bs\<rparr>)" for bs
    by (rule touchesOnly_activeBullets)
  show ?thesis
    using 4 5 by (simp add: eq)
qed

lemma onlyRemoves_meshes:
  assumes "onlyRemoves w w'"
  shows "mesh ` set (activeBullets w') \<subseteq> mesh ` set (activeBullets w)"
proof -
  have "subseq (map mesh (activeBullets w')) (map mesh (activeBullets w))"
    using assms by (simp add: onlyRemoves_def)
  then have "set (map mesh (activeBullets w')) \<subseteq> set (map mesh (activeBullets w))"
    by (rule subseq_imp_subset)
  then show ?thesis by simp
qed

lemma refsApart_shrink:
  assumes "refsApart v"
    and "mesh ` set (activeBullets v') \<subseteq> mesh ` set (activeBullets v)"
    and "\<And>k. bulletColliders v' k = bulletColliders v k \<or> bulletColliders v' k = None"
    and "nextRef v \<le> nextRef v'"
    and "snd ` set (targetColliders v') \<subseteq> snd ` set (targetColliders v)"
  shows "refsApart v'"
  unfolding refsApart_def
proof
  fix x
  assume x: "x \<in> set (activeBullets v')"
  then have "mesh x \<in> mesh ` set (activeBullets v)"
    using assms(2) by blast
  then obtain y where y: "y \<in> set (activeBullets v)" "mesh y = mesh x"
    by auto
  have ya: "mesh y \<notin> snd ` set (targetColliders v)"
    and yb: "\<And>c. bulletColliders v (mesh y) = Some c \<Longrightarrow>
               c < nextRef v \<and> c \<notin> mesh ` set (activeBullets v) \<and> c \<notin> snd ` set (targetColliders v)"
    using assms(1) y(1) unfolding refsApart_def by (auto split: option.splits)
  have 1: "mesh x \<notin> snd ` set (targetColliders v')"
    using ya y(2) assms(5) by auto
  have 2: "c < nextRef v' \<and> c \<notin> mesh ` set (activeBullets v') \<and> c \<notin> snd ` set (targetColliders v')"
    if "bulletColliders v' (mesh x) = Some c" for c
  proof -
    have "bulletColliders v (mesh y) = Some c"
      using that assms(3) [of "mesh x"] y(2) by auto
    then have "c < nextRef v \<and> c \<notin> mesh ` set (activeBullets v) \<and> c \<notin> snd ` set (targetColliders v)"
      by (rule yb)
    then show ?thesis
      using assms(2,4,5) by auto
  qed
  show "mesh x \<notin> snd ` set (targetColliders v')
        \<and> (case bulletColliders v' (mesh x) of
             None \<Rightarrow> True
           | Some c \<Rightarrow> c < nextRef v' \<and> c \<notin> mesh ` set (activeBullets v')
                       \<and> c \<notin> snd ` set (targetColliders v'))"
    using 1 2 by (simp split: option.splits)
qed

lemma refsApart_frame:
  assumes "refsApart v" and "touchesOnly S v v'"
    and "mesh ` set (activeBullets v') \<subseteq> mesh ` set (activeBullets v)"
  shows "refsApart v'"
  using assms(1,3)
proof (rule refsApart_shrink)
  show "bulletColliders v' k = bulletColliders v k \<or> bulletColliders v' k = None" for k
    using assms(2) by (simp add: touchesOnly_def)
  show "nextRef v \<le> nextRef v'"
    using assms(2) by (simp add: touchesOnly_def)
  show "snd ` set (targetColliders v') \<subseteq> snd ` set (targetColliders v)"
    using assms(2) by (simp add: touchesOnly_def)
qed

lemma touchesOnly_visibleTargetColliders:
  assumes "touchesOnly S v v'" and "\<And>c. c \<in> snd ` set (targetColliders v) \<Longrightarrow> c \<notin> S"
  shows "visibleTargetColliders v' = visibleTargetColliders v"
proof -
  have t: "targetColliders v' = targetColliders v"
    using assms(1) by (simp add: touchesOnly_def)
  have o: "objects v' c = objects v c" if "c \<in> set (map snd (targetColliders v))" for c
    using that assms by (simp add: touchesOnly_def)
  have f: "filter (\<lambda>c. visible (objects v' c)) (map snd (targetColliders v))
         = filter (\<lambda>c. visible (objects v c)) (map snd (targetColliders v))"
    by (rule filter_cong) (simp_all add: o)
  have m: "map (\<lambda>c. (c, objects v' c)) (filter (\<lambda>c. visible (objects v c)) (map snd (targetColliders v)))
         = map (\<lambda>c. (c, objects v c)) (filter (\<lambda>c. visible (objects v c)) (map snd (targetColliders v)))"
    by (rule map_cong) (simp_all add: o)
  show ?thesis
    unfolding visibleTargetColliders_def t f m by (rule refl)
qed

text \<open>The references a round may write to: the mesh of its bullet and the bullet's collider.\<close>

lemma round_touches:
  assumes "i < length (activeBullets v)"
  shows "touchesOnly ({mesh (activeBullets v ! i)}
           \<union> {c. bulletColliders v (mesh (activeBullets v ! i)) = Some c}) v (updateBullet e dt i v)"
  using assms by (intro updateBullet_touchesOnly) simp_all

lemma round_keeps:
  assumes "wellFormed v" and "refsApart v" and "i < length (activeBullets v)"
  shows "wellFormed (updateBullet e dt i v)"
    and "refsApart (updateBullet e dt i v)"
    and "take i (activeBullets (updateBullet e dt i v)) = take i (activeBullets v)"
    and "visibleTargetColliders (updateBullet e dt i v) = visibleTargetColliders v"
    and "\<And>k. k < i \<Longrightarrow> objects (updateBullet e dt i v) (mesh (activeBullets v ! k))
                          = objects v (mesh (activeBullets v ! k))"
    and "\<And>r. isTarget (objects (updateBullet e dt i v) r) = isTarget (objects v r)"
    and "\<And>r. parentTarget (objects (updateBullet e dt i v) r) = parentTarget (objects v r)"
proof -
  let ?b = "activeBullets v ! i"
  let ?S = "{mesh ?b} \<union> {c. bulletColliders v (mesh ?b) = Some c}"
  let ?v' = "updateBullet e dt i v"
  have d: "distinct (map mesh (activeBullets v))"
    using assms(1) by (simp add: wellFormed_def inCreationOrder_distinct)
  have t: "touchesOnly ?S v ?v'"
    using assms(3) by (rule round_touches)
  have bin: "?b \<in> set (activeBullets v)"
    using assms(3) by simp
  have ba: "mesh ?b \<notin> snd ` set (targetColliders v)"
    and bb: "\<And>c. bulletColliders v (mesh ?b) = Some c \<Longrightarrow>
               c \<notin> mesh ` set (activeBullets v) \<and> c \<notin> snd ` set (targetColliders v)"
    using assms(2) bin unfolding refsApart_def by (auto split: option.splits)
  show "wellFormed ?v'"
    using assms(1) by (rule wellFormed_updateBullet)
  show "refsApart ?v'"
    using assms(2) t onlyRemoves_meshes [OF updateBullet_onlyRemoves] by (rule refsApart_frame)
  show "take i (activeBullets ?v') = take i (activeBullets v)"
    using assms(3) d by (rule updateBullet_prefix)
  show "visibleTargetColliders ?v' = visibleTargetColliders v"
  proof (rule touchesOnly_visibleTargetColliders [OF t])
    fix c
    assume "c \<in> snd ` set (targetColliders v)"
    then show "c \<notin> ?S"
      using ba bb by blast
  qed
  show "objects ?v' (mesh (activeBullets v ! k)) = objects v (mesh (activeBullets v ! k))"
    if "k < i" for k
  proof -
    have kl: "k < length (activeBullets v)"
      using that assms(3) by simp
    have "k < length (map mesh (activeBullets v))" "i < length (map mesh (activeBullets v))"
      using kl assms(3) by simp_all
    then have "(map mesh (activeBullets v) ! k = map mesh (activeBullets v) ! i) = (k = i)"
      using d by (rule nth_eq_iff_index_eq [rotated])
    then have ne: "mesh (activeBullets v ! k) \<noteq> mesh ?b"
      using that kl assms(3) by simp
    have "activeBullets v ! k \<in> set (activeBullets v)"
      using kl by simp
    then have "mesh (activeBullets v ! k) \<in> mesh ` set (activeBullets v)"
      by (rule imageI)
    then have "bulletColliders v (mesh ?b) \<noteq> Some (mesh (activeBullets v ! k))"
      using bb by blast
    then have "mesh (activeBullets v ! k) \<notin> ?S"
      using ne by simp
    then show ?thesis
      using t unfolding touchesOnly_def by blast
  qed
  show "isTarget (objects ?v' r) = isTarget (objects v r)" for r
    using t by (simp add: touchesOnly_def)
  show "parentTarget (objects ?v' r) = parentTarget (objects v r)" for r
    using t by (simp add: touchesOnly_def)
qed

lemma updateBulletsFrom_touchesOnly: "touchesOnly UNIV v (updateBulletsFrom e dt n v)"
proof (induction n arbitrary: v)
  case 0
  then show ?case by (simp add: touchesOnly_refl)
next
  case (Suc n)
  have "touchesOnly UNIV v (updateBullet e dt n v)"
  proof (cases "n < length (activeBullets v)")
    case True
    then show ?thesis by (intro updateBullet_touchesOnly) simp_all
  next
    case False
    then show ?thesis by (simp add: updateBullet_def touchesOnly_refl)
  qed
  then show ?case
    using Suc.IH [of "updateBullet e dt n v"] touchesOnly_trans by fastforce
qed

subsection \<open>A round that meets a target collider\<close>

lemma setPosition_fields:
  "parentTarget (objects (setPosition r p w) x) = parentTarget (objects w x)"
  "isTarget (objects (setPosition r p w) x) = isTarget (objects w x)"
  by (auto simp: setPosition_def)

lemma updateBullet_detects:
  assumes "wellFormed v" and "refsApart v" and "i < length (activeBullets v)"
    and "b = activeBullets v ! i"
    and "prev = position (objects v (mesh b))"
    and "cur = addV prev (multiplyScalar (velocity b) dt)"
    and "cur \<noteq> prev"
    and "intersectObjects e (sweptRay prev cur) (visibleTargetColliders v) False = hit # hits"
  shows "mesh b \<notin> mesh ` set (activeBullets (updateBullet e dt i v))"
    and "bulletColliders (updateBullet e dt i v) (mesh b) = None"
    and "parentTarget (objects v (object hit)) = Some t \<Longrightarrow> isTarget (objects v t)
         \<Longrightarrow> (t, hit) \<in> set (targetHits (updateBullet e dt i v))"
proof -
  define w2 where "w2 = advanceBullet dt b v"
  define w3 where "w3 = snd (checkBulletColliderCollision e w2 b (position (objects v (mesh b))))"
  define w4 where "w4 = w3\<lparr>activeBullets :=
                     map (\<lambda>x. if mesh x = mesh b then x\<lparr>life := life b - dt\<rparr> else x)
                       (activeBullets w3)\<rparr>"
  let ?w5 = "sceneRemove (mesh b) (removeBulletCollider (mesh b) w4)"
  let ?v' = "updateBullet e dt i v"
  have eq: "?v' =
          (if life b - dt \<le> 0
           then ?w5\<lparr>activeBullets := take i (activeBullets ?w5) @ drop (Suc i) (activeBullets ?w5)\<rparr>
           else w4)"
    by (simp only: updateBullet_def Let_def assms(4) w2_def w3_def w4_def assms(3) if_True)
  have d: "distinct (map mesh (activeBullets v))"
    using assms(1) by (simp add: wellFormed_def inCreationOrder_distinct)
  have bin: "b \<in> set (activeBullets v)"
    using assms(3,4) by simp
  obtain bc where bc: "bulletColliders v (mesh b) = Some bc"
    using assms(1) bin unfolding wellFormed_def haveColliders_def by blast
  have ba: "mesh b \<notin> snd ` set (targetColliders v)"
    and bb: "bc \<notin> snd ` set (targetColliders v)"
    using assms(2) bin bc unfolding refsApart_def by (auto split: option.splits)
  let ?S = "{mesh b, bc}"
  have t2: "touchesOnly ?S v w2"
    unfolding w2_def using bc by (intro advanceBullet_touchesOnly) simp_all
  have vis: "visibleTargetColliders w2 = visibleTargetColliders v"
    by (rule touchesOnly_visibleTargetColliders [OF t2]) (use ba bb in blast)
  have pos: "position (objects w2 (mesh b)) = cur"
    by (simp add: w2_def advanceBullet_position assms(5,6))
  have bc2: "bulletColliders w2 (mesh b) = Some bc"
    by (simp add: w2_def advanceBullet_frame bc)
  have nz: "lengthV (subVectors (position (objects w2 (mesh b))) prev) \<noteq> 0"
    using assms(7) by (simp add: pos lengthV_eq_0_iff subVectors_eq_0_iff)
  have h: "intersectObjects e (sweptRay prev (position (objects w2 (mesh b))))
             (visibleTargetColliders w2) False = hit # hits"
    using assms(8) by (simp add: pos vis)
  have d2: "distinct (map mesh (activeBullets w2))"
    using d by (simp add: w2_def advanceBullet_frame)
  have w3': "w3 = snd (checkBulletColliderCollision e w2 b prev)"
    by (simp add: w3_def assms(5))
  have r3: "mesh b \<notin> mesh ` set (activeBullets w3) \<and> bulletColliders w3 (mesh b) = None"
    unfolding w3' by (rule checkBulletColliderCollision_hit_removes [OF bc2 nz h d2])
  have m4: "map mesh (activeBullets w4) = map mesh (activeBullets w3)"
    using map_mesh_life [of "mesh b" "life b - dt" "activeBullets w3"]
    by (simp add: w4_def del: map_map)
  have c4: "bulletColliders w4 (mesh b) = None"
    using r3 by (simp add: w4_def)
  have c5: "bulletColliders ?w5 (mesh b) = None"
    using c4 by (simp add: sceneRemove_def removeBulletCollider_def split: option.splits)
  show "bulletColliders ?v' (mesh b) = None"
    using c4 c5 by (simp add: eq)
  show "mesh b \<notin> mesh ` set (activeBullets ?v')"
    using updateBullet_meshes_after_check [OF assms(3), of e dt] r3
    unfolding w3_def w2_def assms(4) by blast
  show "(t, hit) \<in> set (targetHits ?v')"
    if p: "parentTarget (objects v (object hit)) = Some t" and it: "isTarget (objects v t)"
  proof -
    let ?w1 = "setPosition bc (point hit) (setPosition (mesh b) (point hit) w2)"
    have f2: "parentTarget (objects w2 r) = parentTarget (objects v r)"
      "isTarget (objects w2 r) = isTarget (objects v r)" for r
      using t2 by (simp_all add: touchesOnly_def)
    have p1: "parentTarget (objects ?w1 (object hit)) = Some t"
      using p by (simp add: setPosition_fields f2)
    have i1: "isTarget (objects ?w1 t)"
      using it by (simp add: setPosition_fields f2)
    have "w3 = removeHitBullet b (Weapon_onTargetHit t hit ?w1)"
      unfolding w3' checkBulletColliderCollision_target [OF bc2 nz h]
      by (simp add: Let_def p1 i1)
    then have 3: "(t, hit) \<in> set (targetHits w3)"
      by (simp add: removeHitBullet_def Let_def Weapon_onTargetHit_def sceneRemove_def
          removeBulletCollider_def split: option.splits)
    have 4: "targetHits w4 = targetHits w3"
      by (simp add: w4_def)
    have 5: "targetHits ?w5 = targetHits w4"
      by (simp add: sceneRemove_def removeBulletCollider_def split: option.splits)
    show ?thesis
      using 3 4 5 by (simp add: eq)
  qed
qed

subsection \<open>The loop over all bullets\<close>

lemma updateBulletsFrom_detects:
  assumes "wellFormed v" and "refsApart v" and "j < n" and "n \<le> length (activeBullets v)"
    and "b = activeBullets v ! j"
    and "prev = position (objects v (mesh b))"
    and "cur = addV prev (multiplyScalar (velocity b) dt)"
    and "cur \<noteq> prev"
    and "intersectObjects e (sweptRay prev cur) (visibleTargetColliders v) False = hit # hits"
  shows "mesh b \<notin> mesh ` set (activeBullets (updateBulletsFrom e dt n v))
       \<and> bulletColliders (updateBulletsFrom e dt n v) (mesh b) = None
       \<and> (\<forall>t. parentTarget (objects v (object hit)) = Some t \<and> isTarget (objects v t)
              \<longrightarrow> (t, hit) \<in> set (targetHits (updateBulletsFrom e dt n v)))"
  using assms
proof (induction n arbitrary: v)
  case 0
  then show ?case by simp
next
  case (Suc n)
  let ?v' = "updateBullet e dt n v"
  have nl: "n < length (activeBullets v)"
    using Suc.prems(4) by simp
  show ?case
  proof (cases "j = n")
    case True
    have b: "b = activeBullets v ! n"
      using Suc.prems(5) True by simp
    note r = updateBullet_detects [OF Suc.prems(1,2) nl b Suc.prems(6,7,8,9)]
    have tail: "touchesOnly UNIV ?v' (updateBulletsFrom e dt n ?v')"
      by (rule updateBulletsFrom_touchesOnly)
    have 1: "mesh b \<notin> mesh ` set (activeBullets (updateBulletsFrom e dt n ?v'))"
      using r(1) updateBulletsFrom_onlyRemoves [of ?v' e dt n, THEN onlyRemoves_meshes] by blast
    have 2: "bulletColliders (updateBulletsFrom e dt n ?v') (mesh b) = None"
      using r(2) tail unfolding touchesOnly_def by metis
    have 3: "(t, hit) \<in> set (targetHits (updateBulletsFrom e dt n ?v'))"
      if "parentTarget (objects v (object hit)) = Some t" "isTarget (objects v t)" for t
    proof -
      obtain hs where "targetHits (updateBulletsFrom e dt n ?v') = targetHits ?v' @ hs"
        using tail unfolding touchesOnly_def by blast
      then show ?thesis
        using r(3) [OF that] by simp
    qed
    show ?thesis
      using 1 2 3 by simp
  next
    case False
    then have jn: "j < n"
      using Suc.prems(3) by simp
    note k = round_keeps [OF Suc.prems(1,2) nl, where e = e and dt = dt]
    have len: "n \<le> length (activeBullets ?v')"
    proof -
      have "length (take n (activeBullets ?v')) = n"
        using k(3) nl by simp
      then show ?thesis by simp
    qed
    have bj: "activeBullets ?v' ! j = activeBullets v ! j"
    proof -
      have "take n (activeBullets ?v') ! j = take n (activeBullets v) ! j"
        using k(3) by simp
      then show ?thesis
        using jn by simp
    qed
    have b': "b = activeBullets ?v' ! j"
      using Suc.prems(5) bj by simp
    have prev': "prev = position (objects ?v' (mesh b))"
      using k(5) [OF jn] Suc.prems(5,6) by simp
    have h': "intersectObjects e (sweptRay prev cur) (visibleTargetColliders ?v') False = hit # hits"
      using Suc.prems(9) k(4) by simp
    have "mesh b \<notin> mesh ` set (activeBullets (updateBulletsFrom e dt n ?v'))
       \<and> bulletColliders (updateBulletsFrom e dt n ?v') (mesh b) = None
       \<and> (\<forall>t. parentTarget (objects ?v' (object hit)) = Some t \<and> isTarget (objects ?v' t)
              \<longrightarrow> (t, hit) \<in> set (targetHits (updateBulletsFrom e dt n ?v')))"
      by (rule Suc.IH [OF k(1,2) jn len b' prev' Suc.prems(7,8) h'])
    then show ?thesis
      by (simp add: k(6,7))
  qed
qed

lemma updateBullet_cong:
  assumes "\<And>objs recursive.
      intersectObjects e' (bulletRay dt v (activeBullets v ! i)) objs recursive
      = intersectObjects e (bulletRay dt v (activeBullets v ! i)) objs recursive"
  shows "updateBullet e' dt i v = updateBullet e dt i v"
proof -
  let ?b = "activeBullets v ! i"
  have "checkBulletColliderCollision e' (advanceBullet dt ?b v) ?b (position (objects v (mesh ?b)))
      = checkBulletColliderCollision e (advanceBullet dt ?b v) ?b (position (objects v (mesh ?b)))"
    by (rule checkBulletColliderCollision_cong)
       (use assms in \<open>simp add: advanceBullet_position bulletRay_def\<close>)
  then show ?thesis
    by (simp add: updateBullet_def Let_def)
qed

lemma updateBulletsFrom_cong:
  assumes "wellFormed v" and "refsApart v" and "n \<le> length (activeBullets v)"
    and "\<And>k objs recursive. k < n \<Longrightarrow>
      intersectObjects e' (bulletRay dt v (activeBullets v ! k)) objs recursive
      = intersectObjects e (bulletRay dt v (activeBullets v ! k)) objs recursive"
  shows "updateBulletsFrom e' dt n v = updateBulletsFrom e dt n v"
  using assms
proof (induction n arbitrary: v)
  case 0
  then show ?case by simp
next
  case (Suc n)
  let ?v' = "updateBullet e dt n v"
  have nl: "n < length (activeBullets v)"
    using Suc.prems(3) by simp
  have r: "updateBullet e' dt n v = ?v'"
    by (rule updateBullet_cong) (simp add: Suc.prems(4))
  note k = round_keeps [OF Suc.prems(1,2) nl, where e = e and dt = dt]
  have len: "n \<le> length (activeBullets ?v')"
  proof -
    have "length (take n (activeBullets ?v')) = n"
      using k(3) nl by simp
    then show ?thesis by simp
  qed
  have ray: "bulletRay dt ?v' (activeBullets ?v' ! j) = bulletRay dt v (activeBullets v ! j)"
    if "j < n" for j
  proof -
    have "take n (activeBullets ?v') ! j = take n (activeBullets v) ! j"
      using k(3) by simp
    then have "activeBullets ?v' ! j = activeBullets v ! j"
      using that by simp
    then show ?thesis
      using k(5) [OF that] by (simp add: bulletRay_def)
  qed
  have "updateBulletsFrom e' dt n ?v' = updateBulletsFrom e dt n ?v'"
  proof (rule Suc.IH [OF k(1,2) len])
    fix j objs recursive
    assume "j < n"
    then show "intersectObjects e' (bulletRay dt ?v' (activeBullets ?v' ! j)) objs recursive
             = intersectObjects e (bulletRay dt ?v' (activeBullets ?v' ! j)) objs recursive"
      using ray Suc.prems(4) [of j] by simp
  qed
  then show ?case
    by (simp add: r)
qed

subsection \<open>Bullets, their colliders and the target colliders are different objects\<close>

lemma refsApart_constructor: "refsApart constructor"
  by (simp add: refsApart_def constructor_def)

lemma refsApart_fields:
  "refsApart (w\<lparr>shootTimer := t\<rparr>) = refsApart w"
  "refsApart (w\<lparr>magAmmo := m\<rparr>) = refsApart w"
  "refsApart (w\<lparr>scanCounter := n\<rparr>) = refsApart w"
  "refsApart (w\<lparr>isShooting := s\<rparr>) = refsApart w"
  "refsApart (reload w) = refsApart w"
  by (simp_all add: refsApart_def reload_def Let_def cong: option.case_cong)

lemma refsApart_updateBullets:
  assumes "refsApart w"
  shows "refsApart (updateBullets e dt w)"
  unfolding updateBullets_def
  using assms updateBulletsFrom_touchesOnly
    updateBulletsFrom_onlyRemoves [THEN onlyRemoves_meshes]
  by (rule refsApart_frame)

lemma AList_update_colliders:
  "snd ` set (AList.update t c xs) \<subseteq> insert c (snd ` set xs)"
  by (induction xs) auto

lemma createTargetCollider_frame:
  "activeBullets (snd (createTargetCollider t sz w)) = activeBullets w"
  "bulletColliders (snd (createTargetCollider t sz w)) = bulletColliders w"
  "targetHits (snd (createTargetCollider t sz w)) = targetHits w"
  "nextRef (snd (createTargetCollider t sz w)) = Suc (nextRef w)"
  "r < nextRef w \<Longrightarrow> objects (snd (createTargetCollider t sz w)) r = objects w r"
  "snd ` set (targetColliders (snd (createTargetCollider t sz w)))
     \<subseteq> insert (nextRef w) (snd ` set (targetColliders w))"
  using AList_update_colliders [of t "nextRef w" "targetColliders w"]
  by (simp_all add: createTargetCollider_def alloc_def sceneAdd_def Let_def)

lemma refsApart_createTargetCollider:
  assumes "inCreationOrder w" and "refsApart w"
  shows "refsApart (snd (createTargetCollider t sz w))"
  unfolding refsApart_def
proof
  let ?w' = "snd (createTargetCollider t sz w)"
  fix x
  assume "x \<in> set (activeBullets ?w')"
  then have x: "x \<in> set (activeBullets w)"
    by (simp add: createTargetCollider_frame)
  have lt: "mesh x < nextRef w"
    using assms(1) x by (simp add: inCreationOrder_def list_all_iff)
  have xa: "mesh x \<notin> snd ` set (targetColliders w)"
    and xb: "\<And>c. bulletColliders w (mesh x) = Some c \<Longrightarrow>
               c < nextRef w \<and> c \<notin> mesh ` set (activeBullets w) \<and> c \<notin> snd ` set (targetColliders w)"
    using assms(2) x unfolding refsApart_def by (auto split: option.splits)
  have s: "snd ` set (targetColliders ?w') \<subseteq> insert (nextRef w) (snd ` set (targetColliders w))"
    by (rule createTargetCollider_frame)
  have 1: "mesh x \<notin> snd ` set (targetColliders ?w')"
    using xa lt s by auto
  have 2: "c < nextRef ?w' \<and> c \<notin> mesh ` set (activeBullets ?w') \<and> c \<notin> snd ` set (targetColliders ?w')"
    if "bulletColliders ?w' (mesh x) = Some c" for c
  proof -
    have "bulletColliders w (mesh x) = Some c"
      using that by (simp add: createTargetCollider_frame)
    then have c: "c < nextRef w \<and> c \<notin> mesh ` set (activeBullets w) \<and> c \<notin> snd ` set (targetColliders w)"
      by (rule xb)
    then have "c \<noteq> nextRef w"
      by simp
    then have "c \<notin> snd ` set (targetColliders ?w')"
      using c s by blast
    then show ?thesis
      using c by (simp add: createTargetCollider_frame)
  qed
  show "mesh x \<notin> snd ` set (targetColliders ?w')
        \<and> (case bulletColliders ?w' (mesh x) of
             None \<Rightarrow> True
           | Some c \<Rightarrow> c < nextRef ?w' \<and> c \<notin> mesh ` set (activeBullets ?w')
                       \<and> c \<notin> snd ` set (targetColliders ?w'))"
    using 1 2 by (simp split: option.splits)
qed

lemma scanForNewTargets_frame:
  "activeBullets (scanForNewTargets w) = activeBullets w"
  "bulletColliders (scanForNewTargets w) = bulletColliders w"
  "targetHits (scanForNewTargets w) = targetHits w"
  "nextRef w \<le> nextRef (scanForNewTargets w)"
  "r < nextRef w \<Longrightarrow> objects (scanForNewTargets w) r = objects w r"
proof -
  define f where "f = (\<lambda>child w'.
        if isTarget (objects w' child)
        then (if map_of (targetColliders w') child \<noteq> None then w'
              else snd (createTargetCollider child (2, 2, 4) w'))
        else w')"
  have step: "activeBullets (f x u) = activeBullets u \<and> bulletColliders (f x u) = bulletColliders u
      \<and> targetHits (f x u) = targetHits u \<and> nextRef u \<le> nextRef (f x u)
      \<and> (\<forall>r < nextRef u. objects (f x u) r = objects u r)" for x u
    by (simp add: f_def createTargetCollider_frame)
  have "activeBullets (fold f xs u) = activeBullets u \<and> bulletColliders (fold f xs u) = bulletColliders u
      \<and> targetHits (fold f xs u) = targetHits u \<and> nextRef u \<le> nextRef (fold f xs u)
      \<and> (\<forall>r < nextRef u. objects (fold f xs u) r = objects u r)" for xs u
  proof (induction xs arbitrary: u)
    case Nil
    then show ?case by simp
  next
    case (Cons x xs)
    show ?case
      using step [of x u] Cons.IH [of "f x u"] by auto
  qed
  from this [of "scene w" w]
  show "activeBullets (scanForNewTargets w) = activeBullets w"
    "bulletColliders (scanForNewTargets w) = bulletColliders w"
    "targetHits (scanForNewTargets w) = targetHits w"
    "nextRef w \<le> nextRef (scanForNewTargets w)"
    "r < nextRef w \<Longrightarrow> objects (scanForNewTargets w) r = objects w r"
    unfolding scanForNewTargets_def f_def by simp_all
qed

lemma refsApart_scanForNewTargets:
  assumes "inCreationOrder w" and "refsApart w"
  shows "refsApart (scanForNewTargets w)"
proof -
  define f where "f = (\<lambda>child w'.
        if isTarget (objects w' child)
        then (if map_of (targetColliders w') child \<noteq> None then w'
              else snd (createTargetCollider child (2, 2, 4) w'))
        else w')"
  have step: "inCreationOrder (f x u) \<and> refsApart (f x u)"
    if "inCreationOrder u \<and> refsApart u" for x u
    using that createTargetCollider_onlyRemoves [of u x "(2, 2, 4)"]
      onlyRemoves_inCreationOrder [of u "snd (createTargetCollider x (2, 2, 4) u)"]
    by (simp add: f_def refsApart_createTargetCollider)
  have "inCreationOrder (fold f xs u) \<and> refsApart (fold f xs u)"
    if "inCreationOrder u \<and> refsApart u" for xs u
    using that
  proof (induction xs arbitrary: u)
    case Nil
    then show ?case by simp
  next
    case (Cons x xs)
    show ?case
      using Cons.IH [OF step [OF Cons.prems]] by simp
  qed
  from this [of w "scene w"] show ?thesis
    using assms unfolding scanForNewTargets_def f_def by simp
qed

lemma updateTargetColliders_frame:
  "bulletColliders (updateTargetColliders w) = bulletColliders w"
  "targetHits (updateTargetColliders w) = targetHits w"
proof -
  define f where "f = (\<lambda>(target, collider) w'.
        if hasParent (objects w' target)
        then setPosition collider (addV (position (objects w' target)) (0, 1, 0)) w'
        else removeTargetCollider target w')"
  have step: "bulletColliders (f x u) = bulletColliders u \<and> targetHits (f x u) = targetHits u"
    for x u
    by (cases x) (simp add: f_def setPosition_def removeTargetCollider_def sceneRemove_def
        split: option.splits)
  have "bulletColliders (fold f xs u) = bulletColliders u \<and> targetHits (fold f xs u) = targetHits u"
    for xs u
  proof (induction xs arbitrary: u)
    case Nil
    then show ?case by simp
  next
    case (Cons x xs)
    show ?case
      using step [of x u] Cons.IH [of "f x u"] by simp
  qed
  from this [of "targetColliders w" w]
  show "bulletColliders (updateTargetColliders w) = bulletColliders w"
    "targetHits (updateTargetColliders w) = targetHits w"
    unfolding updateTargetColliders_def f_def by simp_all
qed

lemma refsApart_updateTargetColliders:
  assumes "refsApart w"
  shows "refsApart (updateTargetColliders w)"
  using assms
proof (rule refsApart_shrink)
  show "mesh ` set (activeBullets (updateTargetColliders w)) \<subseteq> mesh ` set (activeBullets w)"
    using updateTargetColliders_onlyRemoves by (rule onlyRemoves_meshes)
  show "bulletColliders (updateTargetColliders w) k = bulletColliders w k
      \<or> bulletColliders (updateTargetColliders w) k = None" for k
    by (simp add: updateTargetColliders_frame)
  show "nextRef w \<le> nextRef (updateTargetColliders w)"
    using updateTargetColliders_keepsColliders [of w] by (simp add: keepsColliders_def)
  show "snd ` set (targetColliders (updateTargetColliders w)) \<subseteq> snd ` set (targetColliders w)"
    using updateTargetColliders_keepsColliders [of w] by (simp add: keepsColliders_def)
qed

lemma createBulletTrail_targetHits:
  "targetHits (snd (createBulletTrail e p d w)) = targetHits w"
  by (auto simp: createBulletTrail_def createBulletCollider_def alloc_def sceneAdd_def
      sceneRemove_def Let_def split: prod.splits list.splits)

lemma createBulletTrail_meshes:
  "mesh ` set (activeBullets (snd (createBulletTrail e p d w)))
     \<subseteq> insert (nextRef w) (mesh ` set (activeBullets w))"
proof -
  let ?new = "fst (createBulletTrail e p d w)"
  have tl_sub: "set (tl (xs @ [a])) \<subseteq> insert a (set xs)" for a and xs :: "bullet list"
    by (cases xs) auto
  have "set (activeBullets (snd (createBulletTrail e p d w))) \<subseteq> insert ?new (set (activeBullets w))"
  proof (cases "maxBulletTrails w \<le> length (activeBullets w)")
    case True
    then have "activeBullets (snd (createBulletTrail e p d w)) = tl (activeBullets w @ [?new])"
      by (simp only: createBulletTrail_activeBullets if_True)
    then show ?thesis
      by (simp only: tl_sub)
  next
    case False
    then have "activeBullets (snd (createBulletTrail e p d w)) = activeBullets w @ [?new]"
      by (simp only: createBulletTrail_activeBullets if_False)
    then show ?thesis
      by auto
  qed
  then show ?thesis
    using createBulletTrail_mesh [of e p d w] by auto
qed

lemma refsApart_createBulletTrail:
  assumes "wellFormed w" and "refsApart w"
  shows "refsApart (snd (createBulletTrail e p d w))"
  unfolding refsApart_def
proof
  let ?w' = "snd (createBulletTrail e p d w)"
  fix x
  assume x: "x \<in> set (activeBullets ?w')"
  have old: "m < nextRef w" if "m \<in> mesh ` set (activeBullets w)" for m
    using assms(1) that by (auto simp: wellFormed_def inCreationOrder_def list_all_iff)
  have tc: "c < nextRef w" if "c \<in> snd ` set (targetColliders w)" for c
    using assms(1) that unfolding wellFormed_def collidersVisible_def by blast
  have s: "snd ` set (targetColliders ?w') \<subseteq> snd ` set (targetColliders w)"
    using createBulletTrail_keepsColliders [of w e p d] by (simp add: keepsColliders_def)
  have ms: "mesh ` set (activeBullets ?w') \<subseteq> insert (nextRef w) (mesh ` set (activeBullets w))"
    by (rule createBulletTrail_meshes)
  have n: "nextRef ?w' = nextRef w + 2"
    by (rule createBulletTrail_nextRef)
  have bc: "bulletColliders ?w' = (bulletColliders w)(nextRef w \<mapsto> Suc (nextRef w))"
    by (rule createBulletTrail_bulletColliders)
  have mx: "mesh x = nextRef w \<or> mesh x \<in> mesh ` set (activeBullets w)"
    using x ms by blast
  have 1: "mesh x \<notin> snd ` set (targetColliders ?w')"
  proof
    assume "mesh x \<in> snd ` set (targetColliders ?w')"
    then have a: "mesh x \<in> snd ` set (targetColliders w)"
      using s by blast
    then have "mesh x < nextRef w"
      by (rule tc)
    then have "mesh x \<in> mesh ` set (activeBullets w)"
      using mx by simp
    then obtain y where y: "y \<in> set (activeBullets w)" "mesh y = mesh x"
      by auto
    then have "mesh y \<notin> snd ` set (targetColliders w)"
      using assms(2) unfolding refsApart_def by blast
    then show False
      using a y(2) by simp
  qed
  have 2: "c < nextRef ?w' \<and> c \<notin> mesh ` set (activeBullets ?w') \<and> c \<notin> snd ` set (targetColliders ?w')"
    if c: "bulletColliders ?w' (mesh x) = Some c" for c
  proof (cases "mesh x = nextRef w")
    case True
    then have ceq: "c = Suc (nextRef w)"
      using c bc by simp
    have "Suc (nextRef w) \<notin> mesh ` set (activeBullets ?w')"
      using ms old by fastforce
    moreover have "Suc (nextRef w) \<notin> snd ` set (targetColliders ?w')"
      using s tc by fastforce
    ultimately show ?thesis
      using ceq n by simp
  next
    case False
    then have "mesh x \<in> mesh ` set (activeBullets w)"
      using mx by simp
    then obtain y where y: "y \<in> set (activeBullets w)" "mesh y = mesh x"
      by auto
    have "bulletColliders w (mesh y) = Some c"
      using c bc False y(2) by simp
    then have yc: "c < nextRef w \<and> c \<notin> mesh ` set (activeBullets w) \<and> c \<notin> snd ` set (targetColliders w)"
      using assms(2) y(1) unfolding refsApart_def by (auto split: option.splits)
    then have "c \<notin> mesh ` set (activeBullets ?w')"
      using ms by auto
    then show ?thesis
      using yc s n by auto
  qed
  show "mesh x \<notin> snd ` set (targetColliders ?w')
        \<and> (case bulletColliders ?w' (mesh x) of
             None \<Rightarrow> True
           | Some c \<Rightarrow> c < nextRef ?w' \<and> c \<notin> mesh ` set (activeBullets ?w')
                       \<and> c \<notin> snd ` set (targetColliders ?w'))"
    using 1 2 by (simp split: option.splits)
qed

lemma scanStep_keeps:
  assumes "wellFormed w" and "refsApart w"
  shows "wellFormed (scanStep w)" and "refsApart (scanStep w)"
    and "activeBullets (scanStep w) = activeBullets w"
    and "bulletColliders (scanStep w) = bulletColliders w"
    and "targetHits (scanStep w) = targetHits w"
    and "nextRef w \<le> nextRef (scanStep w)"
    and "\<And>r. r < nextRef w \<Longrightarrow> objects (scanStep w) r = objects w r"
proof -
  let ?w1 = "w\<lparr>scanCounter := scanCounter w + 1\<rparr>"
  have 1: "wellFormed ?w1" "refsApart ?w1"
    using assms by (simp_all add: wellFormed_fields refsApart_fields)
  then have i1: "inCreationOrder ?w1"
    by (simp add: wellFormed_def)
  show "wellFormed (scanStep w)"
    using 1 by (simp add: scanStep_def Let_def wellFormed_scanForNewTargets)
  show "refsApart (scanStep w)"
    using 1 i1 by (simp add: scanStep_def Let_def refsApart_scanForNewTargets)
  show "activeBullets (scanStep w) = activeBullets w"
    "bulletColliders (scanStep w) = bulletColliders w"
    "targetHits (scanStep w) = targetHits w"
    by (simp_all add: scanStep_def Let_def scanForNewTargets_frame)
  show "nextRef w \<le> nextRef (scanStep w)"
    using scanForNewTargets_frame(4) [of ?w1] by (simp add: scanStep_def Let_def)
  show "objects (scanStep w) r = objects w r" if "r < nextRef w" for r
    using scanForNewTargets_frame(5) [of r ?w1] that by (simp add: scanStep_def Let_def)
qed

lemma beforeShooting_scanStep:
  "beforeShooting e dt w = updateTargetColliders (updateBullets e dt (scanStep w))"
  by (simp add: beforeShooting_def scanStep_def Let_def)

lemma refsApart_update:
  assumes "wellFormed w" and "refsApart w"
  shows "refsApart (update e dt w)"
proof (cases "isLoaded w")
  case False
  then show ?thesis using assms by (simp add: update_def)
next
  case True
  let ?w4 = "beforeShooting e dt w"
  have 4: "refsApart ?w4"
    unfolding beforeShooting_scanStep
    using scanStep_keeps(2) [OF assms]
    by (intro refsApart_updateTargetColliders refsApart_updateBullets)
  have w4: "wellFormed ?w4"
    unfolding beforeShooting_scanStep
    using scanStep_keeps(1) [OF assms]
    by (intro wellFormed_updateTargetColliders wellFormed_updateBullets)
  obtain fired w' where sh: "shoot e ?w4 = (fired, w')"
    by (cases "shoot e ?w4")
  have "refsApart (snd (shoot e ?w4))"
    using 4 w4
    by (simp add: shoot_def Let_def refsApart_fields wellFormed_fields refsApart_createBulletTrail)
  then have s: "refsApart w'" using sh by simp
  show ?thesis
    using True 4 s by (simp add: update_unfold Let_def sh refsApart_fields)
qed

lemma refsApart_startShooting: "refsApart w \<Longrightarrow> refsApart (startShooting w)"
  by (simp add: startShooting_def refsApart_def cong: option.case_cong)

lemma refsApart_registerTarget:
  assumes "wellFormed w" and "refsApart w"
  shows "refsApart (registerTarget t sz w)"
proof -
  let ?v = "w\<lparr>objects := (objects w)(t := (objects w t)\<lparr>isTarget := True\<rparr>)\<rparr>"
  have "inCreationOrder ?v" "refsApart ?v"
    using assms
    by (simp_all add: wellFormed_def inCreationOrder_def refsApart_def cong: option.case_cong)
  then show ?thesis
    unfolding registerTarget_def by (rule refsApart_createTargetCollider)
qed

subsection \<open>A whole tick\<close>

lemma updateBullets_detects:
  assumes "wellFormed w" and "refsApart w" and "b \<in> set (activeBullets w)"
    and "prev = position (objects w (mesh b))"
    and "cur = addV prev (multiplyScalar (velocity b) dt)"
    and "cur \<noteq> prev"
    and "intersectObjects e (sweptRay prev cur) (visibleTargetColliders w) False = hit # hits"
  shows "mesh b \<notin> mesh ` set (activeBullets (updateBullets e dt w))
       \<and> bulletColliders (updateBullets e dt w) (mesh b) = None
       \<and> (\<forall>t. parentTarget (objects w (object hit)) = Some t \<and> isTarget (objects w t)
              \<longrightarrow> (t, hit) \<in> set (targetHits (updateBullets e dt w)))"
proof -
  obtain j where j: "j < length (activeBullets w)" "b = activeBullets w ! j"
    using assms(3) by (metis in_set_conv_nth)
  show ?thesis
    unfolding updateBullets_def
    by (rule updateBulletsFrom_detects [OF assms(1,2) j(1) order_refl j(2) assms(4,5,6,7)])
qed

lemma updateBullets_cong:
  assumes "wellFormed w" and "refsApart w"
    and "\<And>x objs recursive. x \<in> set (activeBullets w) \<Longrightarrow>
      intersectObjects e' (bulletRay dt w x) objs recursive
      = intersectObjects e (bulletRay dt w x) objs recursive"
  shows "updateBullets e' dt w = updateBullets e dt w"
  unfolding updateBullets_def
  by (rule updateBulletsFrom_cong [OF assms(1,2) order_refl]) (simp add: assms(3))

lemma shoot_frame:
  "mesh ` set (activeBullets (snd (shoot e w))) \<subseteq> insert (nextRef w) (mesh ` set (activeBullets w))"
  "m \<noteq> nextRef w \<Longrightarrow> bulletColliders (snd (shoot e w)) m = bulletColliders w m"
  "targetHits (snd (shoot e w)) = targetHits w"
proof -
  let ?w1 = "w\<lparr>magAmmo := magAmmo w - 1\<rparr>"
  let ?p = "getGunMuzzlePosition e"
  let ?d = "normalizeV (getWorldDirection e)"
  have r: "activeBullets (reload w) = activeBullets w" "bulletColliders (reload w) = bulletColliders w"
    "targetHits (reload w) = targetHits w"
    by (simp_all add: reload_def Let_def)
  have s: "snd (shoot e w) = (if magAmmo w \<le> 0 then reload w else snd (createBulletTrail e ?p ?d ?w1))"
    by (simp add: shoot_def Let_def)
  show "mesh ` set (activeBullets (snd (shoot e w))) \<subseteq> insert (nextRef w) (mesh ` set (activeBullets w))"
    using createBulletTrail_meshes [of e ?p ?d ?w1] by (auto simp: s r)
  show "bulletColliders (snd (shoot e w)) m = bulletColliders w m" if "m \<noteq> nextRef w"
    using that by (simp add: s r createBulletTrail_bulletColliders)
  show "targetHits (snd (shoot e w)) = targetHits w"
    by (simp add: s r createBulletTrail_targetHits)
qed

lemma update_detects:
  assumes "wellFormed w" and "refsApart w" and "isLoaded w" and "b \<in> set (activeBullets w)"
    and "prev = position (objects w (mesh b))"
    and "cur = addV prev (multiplyScalar (velocity b) dt)"
    and "cur \<noteq> prev"
    and "intersectObjects e (sweptRay prev cur) (visibleTargetColliders (scanStep w)) False = hit # hits"
  shows "mesh b \<notin> mesh ` set (activeBullets (update e dt w))
       \<and> bulletColliders (update e dt w) (mesh b) = None
       \<and> (\<forall>t. parentTarget (objects (scanStep w) (object hit)) = Some t
                \<and> isTarget (objects (scanStep w) t)
              \<longrightarrow> (t, hit) \<in> set (targetHits (update e dt w)))"
proof -
  let ?ws = "scanStep w"
  let ?w3 = "updateBullets e dt ?ws"
  let ?w4 = "beforeShooting e dt w"
  note k = scanStep_keeps [OF assms(1,2)]
  have lt: "mesh b < nextRef w"
    using assms(1,4) by (simp add: wellFormed_def inCreationOrder_def list_all_iff)
  have bs: "b \<in> set (activeBullets ?ws)"
    using assms(4) k(3) by simp
  have prev': "prev = position (objects ?ws (mesh b))"
    using assms(5) k(7) [OF lt] by simp
  have 3: "mesh b \<notin> mesh ` set (activeBullets ?w3)
       \<and> bulletColliders ?w3 (mesh b) = None
       \<and> (\<forall>t. parentTarget (objects ?ws (object hit)) = Some t \<and> isTarget (objects ?ws t)
              \<longrightarrow> (t, hit) \<in> set (targetHits ?w3))"
    by (rule updateBullets_detects [OF k(1,2) bs prev' assms(6,7,8)])
  have w4: "?w4 = updateTargetColliders ?w3"
    by (rule beforeShooting_scanStep)
  have m4: "mesh ` set (activeBullets ?w4) \<subseteq> mesh ` set (activeBullets ?w3)"
    unfolding w4 using updateTargetColliders_onlyRemoves by (rule onlyRemoves_meshes)
  have f4: "bulletColliders ?w4 = bulletColliders ?w3" "targetHits ?w4 = targetHits ?w3"
    unfolding w4 by (simp_all add: updateTargetColliders_frame)
  have n4: "mesh b \<noteq> nextRef ?w4"
  proof -
    have "nextRef w \<le> nextRef ?w4"
      using beforeShooting_onlyRemoves [of w e dt] by (simp add: onlyRemoves_def)
    then show ?thesis using lt by simp
  qed
  define w5 where "w5 = (if isShooting ?w4 \<and> shootTimer ?w4 \<le> 0
                then (case shoot e ?w4 of
                        (fired, w') \<Rightarrow> if fired then w'\<lparr>shootTimer := fireRate w'\<rparr> else w')
                else ?w4)"
  have u: "activeBullets (update e dt w) = activeBullets w5"
    "bulletColliders (update e dt w) = bulletColliders w5"
    "targetHits (update e dt w) = targetHits w5"
    using assms(3) by (simp_all add: update_unfold Let_def w5_def [symmetric])
  have c5: "(activeBullets w5 = activeBullets ?w4 \<and> bulletColliders w5 = bulletColliders ?w4
             \<and> targetHits w5 = targetHits ?w4)
          \<or> (activeBullets w5 = activeBullets (snd (shoot e ?w4))
             \<and> bulletColliders w5 = bulletColliders (snd (shoot e ?w4))
             \<and> targetHits w5 = targetHits (snd (shoot e ?w4)))"
    by (cases "shoot e ?w4") (simp add: w5_def)
  have 5: "mesh b \<notin> mesh ` set (activeBullets w5)
       \<and> bulletColliders w5 (mesh b) = None
       \<and> targetHits w5 = targetHits ?w3"
  proof -
    have a: "mesh b \<notin> mesh ` set (activeBullets ?w4)"
      using 3 m4 by blast
    have b: "mesh b \<notin> mesh ` set (activeBullets (snd (shoot e ?w4)))"
      using a n4 shoot_frame(1) [of e ?w4] by blast
    have c: "bulletColliders (snd (shoot e ?w4)) (mesh b) = None"
      using 3 n4 by (simp add: shoot_frame(2) f4)
    have d: "bulletColliders ?w4 (mesh b) = None"
      using 3 by (simp add: f4)
    show ?thesis
      using c5 a b c d by (auto simp: shoot_frame(3) f4)
  qed
  show ?thesis
    using 3 5 by (simp add: u)
qed

text \<open>
  C5. In a tick, every bullet in flight is tested along the whole segment it travels. For
  a bullet \<open>b\<close> of the list that moves in this tick, the ray of its test starts at the
  position before the move, its range starts at 0 and ends at the length of the
  displacement, which is positive, its far end is the position after the move, and every
  point of the segment between the two positions lies on it within its range. The loop
  \<^verbatim>\<open>updateBullets\<close> asks the ray caster about these rays only, one per bullet of the
  list: two ray casters that agree on the rays of all bullets give the same tick. And the
  test is not skipped for any bullet of the list: if the ray caster reports a target
  collider anywhere on the segment of \<open>b\<close>, then after \<^verbatim>\<open>updateBullets\<close>, and after the
  whole \<^verbatim>\<open>update\<close> of a loaded weapon, \<open>b\<close> is gone from the list, its collider is
  unregistered, and the hit has been passed to the target of the collider that was hit. So
  a thin collider between the two positions is not jumped over (see the example after the
  theorem: displacement 2, collider 0.1 wide). In \<^verbatim>\<open>update\<close> the target colliders are
  those after the scan for new targets, which runs before the bullets are moved.
\<close>

theorem bullet_collision_is_swept:
  assumes "wellFormed w" and "refsApart w"
    and "b \<in> set (activeBullets w)"
    and "prev = position (objects w (mesh b))"
    and "cur = addV prev (multiplyScalar (velocity b) deltaTime)"
    and "cur \<noteq> prev"
  shows "bulletRay deltaTime w b = sweptRay prev cur
       \<and> origin (sweptRay prev cur) = prev
       \<and> near (sweptRay prev cur) = 0
       \<and> 0 < far (sweptRay prev cur)
       \<and> addV prev (multiplyScalar (direction (sweptRay prev cur)) (far (sweptRay prev cur))) = cur
       \<and> (\<forall>s. 0 \<le> s \<and> s \<le> 1 \<longrightarrow>
            (\<exists>t. near (sweptRay prev cur) \<le> t \<and> t \<le> far (sweptRay prev cur)
               \<and> addV prev (multiplyScalar (direction (sweptRay prev cur)) t)
                 = addV prev (multiplyScalar (subVectors cur prev) s)))
       \<and> ((\<forall>x \<in> set (activeBullets w). \<forall>objs recursive.
               intersectObjects e' (bulletRay deltaTime w x) objs recursive
               = intersectObjects e (bulletRay deltaTime w x) objs recursive)
            \<longrightarrow> updateBullets e' deltaTime w = updateBullets e deltaTime w)
       \<and> (\<forall>hit hits.
             intersectObjects e (sweptRay prev cur) (visibleTargetColliders w) False = hit # hits
             \<longrightarrow> mesh b \<notin> mesh ` set (activeBullets (updateBullets e deltaTime w))
               \<and> bulletColliders (updateBullets e deltaTime w) (mesh b) = None
               \<and> (\<forall>t. parentTarget (objects w (object hit)) = Some t \<and> isTarget (objects w t)
                      \<longrightarrow> (t, hit) \<in> set (targetHits (updateBullets e deltaTime w))))
       \<and> (\<forall>hit hits.
             isLoaded w
             \<and> intersectObjects e (sweptRay prev cur) (visibleTargetColliders (scanStep w)) False
                 = hit # hits
             \<longrightarrow> mesh b \<notin> mesh ` set (activeBullets (update e deltaTime w))
               \<and> bulletColliders (update e deltaTime w) (mesh b) = None
               \<and> (\<forall>t. parentTarget (objects (scanStep w) (object hit)) = Some t
                        \<and> isTarget (objects (scanStep w) t)
                      \<longrightarrow> (t, hit) \<in> set (targetHits (update e deltaTime w))))"
proof -
  let ?r = "sweptRay prev cur"
  have ray: "bulletRay deltaTime w b = ?r"
    by (simp add: bulletRay_def assms(4,5))
  have far: "0 < far ?r"
    using assms(6) by (rule sweptRay_far_pos)
  have org: "origin ?r = prev" "near ?r = 0"
    by (simp_all add: sweptRay_def Let_def)
  have pt: "addV prev (multiplyScalar (direction ?r) (s * far ?r))
            = addV prev (multiplyScalar (subVectors cur prev) s)" for s
    using sweptRay_point [OF assms(6), of s] org by simp
  have endp: "addV prev (multiplyScalar (direction ?r) (far ?r)) = cur"
    using pt [of 1] by (simp add: segment_end)
  have seg: "\<exists>t. near ?r \<le> t \<and> t \<le> far ?r
               \<and> addV prev (multiplyScalar (direction ?r) t)
                 = addV prev (multiplyScalar (subVectors cur prev) s)"
    if "0 \<le> s \<and> s \<le> 1" for s
  proof (intro exI conjI)
    show "near ?r \<le> s * far ?r" using that far org by simp
    show "s * far ?r \<le> far ?r" using that far by (simp add: mult_le_cancel_right1)
    show "addV prev (multiplyScalar (direction ?r) (s * far ?r))
            = addV prev (multiplyScalar (subVectors cur prev) s)" by (rule pt)
  qed
  have ext: "updateBullets e' deltaTime w = updateBullets e deltaTime w"
    if "\<forall>x \<in> set (activeBullets w). \<forall>objs recursive.
               intersectObjects e' (bulletRay deltaTime w x) objs recursive
               = intersectObjects e (bulletRay deltaTime w x) objs recursive"
    by (rule updateBullets_cong [OF assms(1,2)]) (use that in blast)
  have loop: "mesh b \<notin> mesh ` set (activeBullets (updateBullets e deltaTime w))
               \<and> bulletColliders (updateBullets e deltaTime w) (mesh b) = None
               \<and> (\<forall>t. parentTarget (objects w (object hit)) = Some t \<and> isTarget (objects w t)
                      \<longrightarrow> (t, hit) \<in> set (targetHits (updateBullets e deltaTime w)))"
    if "intersectObjects e ?r (visibleTargetColliders w) False = hit # hits" for hit hits
    by (rule updateBullets_detects [OF assms(1,2,3,4,5,6) that])
  have tick: "mesh b \<notin> mesh ` set (activeBullets (update e deltaTime w))
               \<and> bulletColliders (update e deltaTime w) (mesh b) = None
               \<and> (\<forall>t. parentTarget (objects (scanStep w) (object hit)) = Some t
                        \<and> isTarget (objects (scanStep w) t)
                      \<longrightarrow> (t, hit) \<in> set (targetHits (update e deltaTime w)))"
    if "isLoaded w \<and> intersectObjects e ?r (visibleTargetColliders (scanStep w)) False = hit # hits"
    for hit hits
    using update_detects [OF assms(1,2) _ assms(3,4,5,6), of e hit hits] that by blast
  show ?thesis
    using ray org far endp seg ext loop tick by blast
qed

lemma rangeScene_wellFormed: "wellFormed rangeScene" "refsApart rangeScene"
  by (simp_all add: wellFormed_def inCreationOrder_def haveColliders_def collidersVisible_def
      refsApart_def rangeScene_simps rangeScene_def constructor_def rangeObjects_simps newObject_def)

lemma rangeScene_scanStep: "scanStep rangeScene = rangeScene\<lparr>scanCounter := 1\<rparr>"
  by (simp add: scanStep_def Let_def rangeScene_def constructor_def)

lemma rangeScene_visibleTargetColliders:
  "visibleTargetColliders rangeScene = [(13, rangeObjects 13)]"
  "visibleTargetColliders (rangeScene\<lparr>scanCounter := n\<rparr>) = [(13, rangeObjects 13)]"
  by (simp_all add: visibleTargetColliders_def rangeScene_simps rangeObjects_simps newObject_def)

theorem bullet_collision_is_swept_witness:
  "wellFormed rangeScene \<and> refsApart rangeScene \<and> isLoaded rangeScene
   \<and> rangeBullet \<in> set (activeBullets rangeScene)
   \<and> position (objects rangeScene (mesh rangeBullet)) = (0, 0, 0)
   \<and> addV (0, 0, 0) (multiplyScalar (velocity rangeBullet) (1 / 50)) = (2, 0, 0)
   \<and> sweptRay (0, 0, 0) (2, 0, 0) = \<lparr>origin = (0, 0, 0), direction = (1, 0, 0), near = 0, far = 2\<rparr>
   \<and> position (rangeObjects 13) = (1, 0, 0) \<and> boxSize (rangeObjects 13) = (1 / 10, 2, 4)
   \<and> intersectObjects rangeEnv (sweptRay (0, 0, 0) (2, 0, 0)) (visibleTargetColliders rangeScene) False
       = [\<lparr>object = 13, point = (19 / 20, 0, 0), distance = 19 / 20\<rparr>]
   \<and> mesh rangeBullet \<notin> mesh ` set (activeBullets (updateBullets rangeEnv (1 / 50) rangeScene))
   \<and> bulletColliders (updateBullets rangeEnv (1 / 50) rangeScene) (mesh rangeBullet) = None
   \<and> (12, \<lparr>object = 13, point = (19 / 20, 0, 0), distance = 19 / 20\<rparr>)
       \<in> set (targetHits (updateBullets rangeEnv (1 / 50) rangeScene))
   \<and> mesh rangeBullet \<notin> mesh ` set (activeBullets (update rangeEnv (1 / 50) rangeScene))
   \<and> bulletColliders (update rangeEnv (1 / 50) rangeScene) (mesh rangeBullet) = None
   \<and> (12, \<lparr>object = 13, point = (19 / 20, 0, 0), distance = 19 / 20\<rparr>)
       \<in> set (targetHits (update rangeEnv (1 / 50) rangeScene))"
proof -
  let ?hit = "\<lparr>object = 13, point = (19 / 20, 0, 0), distance = 19 / 20\<rparr>"
  have h3: "rangeBullet \<in> set (activeBullets rangeScene)"
    and h4: "(0, 0, 0) = position (objects rangeScene (mesh rangeBullet))"
    and ld: "isLoaded rangeScene"
    by (simp_all add: rangeScene_simps rangeObjects_simps newObject_def rangeScene_def)
  have h5: "(2, 0, 0) = addV (0, 0, 0) (multiplyScalar (velocity rangeBullet) (1 / 50))"
    by (simp add: rangeScene_simps addV_def multiplyScalar_def)
  have h6: "(2 :: real, 0 :: real, 0 :: real) \<noteq> (0, 0, 0)"
    by simp
  have c: "intersectObjects rangeEnv (sweptRay (0, 0, 0) (2, 0, 0))
             (visibleTargetColliders rangeScene) False = [?hit]"
    using xAxisCaster_meets_target
    by (simp add: rangeEnv_def sweptRay_example rangeScene_visibleTargetColliders)
  have c': "intersectObjects rangeEnv (sweptRay (0, 0, 0) (2, 0, 0))
             (visibleTargetColliders (scanStep rangeScene)) False = [?hit]"
    using xAxisCaster_meets_target
    by (simp add: rangeEnv_def sweptRay_example rangeScene_scanStep rangeScene_visibleTargetColliders)
  have p: "parentTarget (objects rangeScene (object ?hit)) = Some 12 \<and> isTarget (objects rangeScene 12)"
    by (simp add: rangeScene_simps rangeObjects_simps newObject_def)
  have p': "parentTarget (objects (scanStep rangeScene) (object ?hit)) = Some 12
          \<and> isTarget (objects (scanStep rangeScene) 12)"
    by (simp add: rangeScene_scanStep rangeScene_simps rangeObjects_simps newObject_def)
  have box: "position (rangeObjects 13) = (1, 0, 0) \<and> boxSize (rangeObjects 13) = (1 / 10, 2, 4)"
    by (simp add: rangeObjects_simps newObject_def)
  note t = bullet_collision_is_swept [OF rangeScene_wellFormed h3 h4 h5 h6,
      where e = rangeEnv and e' = rangeEnv]
  have a: "mesh rangeBullet \<notin> mesh ` set (activeBullets (updateBullets rangeEnv (1 / 50) rangeScene))
   \<and> bulletColliders (updateBullets rangeEnv (1 / 50) rangeScene) (mesh rangeBullet) = None
   \<and> (12, ?hit) \<in> set (targetHits (updateBullets rangeEnv (1 / 50) rangeScene))"
    using t c p by blast
  have b: "mesh rangeBullet \<notin> mesh ` set (activeBullets (update rangeEnv (1 / 50) rangeScene))
   \<and> bulletColliders (update rangeEnv (1 / 50) rangeScene) (mesh rangeBullet) = None
   \<and> (12, ?hit) \<in> set (targetHits (update rangeEnv (1 / 50) rangeScene))"
    using t c' p' ld by blast
  show ?thesis
    using rangeScene_wellFormed h3 h4 [symmetric] h5 [symmetric] ld c a b box sweptRay_example
    by simp
qed

section \<open>Authoritative events\<close>

subsection \<open>targetHit\<close>







subsection \<open>targetDestroyed\<close>

lemma destroyTargetById_again:
  "destroyTargetById tid b (snd (destroyTargetById tid b tm)) = (False, snd (destroyTargetById tid b tm))"
  by (auto simp: destroyTargetById_def)

text \<open>
  C3. Applying a \<^verbatim>\<open>targetDestroyed\<close> event twice gives the state that applying it once
  gives. The score grows by the points of the event exactly when the target manager
  exists, a target with the identifier is present, and the destroying player is the local
  player; otherwise it is unchanged. With no target of that identifier the handler changes
  nothing; with the manager present, no target of that identifier is left afterwards.
\<close>

theorem targetDestroyed_is_idempotent:
  "onTargetDestroyed d (onTargetDestroyed d s) = onTargetDestroyed d s
   \<and> score (onTargetDestroyed d s) =
       (if (\<exists>tm. targetManager s = Some tm \<and> dd_targetId d \<in> targetId ` set (targets tm))
           \<and> dd_playerId d = playerId s
        then score s + dd_points d else score s)
   \<and> ((\<forall>tm. targetManager s = Some tm \<longrightarrow> dd_targetId d \<notin> targetId ` set (targets tm))
        \<longrightarrow> onTargetDestroyed d s = s)
   \<and> (\<forall>tm. targetManager s = Some tm \<longrightarrow>
         (\<exists>tm'. targetManager (onTargetDestroyed d s) = Some tm'
            \<and> targets tm' = filter (\<lambda>t. targetId t \<noteq> dd_targetId d) (targets tm)))"
proof (cases "targetManager s")
  case None
  then show ?thesis by (simp add: onTargetDestroyed_def)
next
  case (Some tm)
  show ?thesis
  proof (cases "dd_targetId d \<in> targetId ` set (targets tm)")
    case True
    then show ?thesis
      using Some by (auto simp: onTargetDestroyed_def destroyTargetById_def Let_def)
  next
    case False
    then have "filter (\<lambda>t. targetId t \<noteq> dd_targetId d) (targets tm) = targets tm"
      by (auto simp: filter_id_conv image_iff)
    then show ?thesis
      using Some False by (auto simp: onTargetDestroyed_def destroyTargetById_def Let_def)
  qed
qed

theorem targetDestroyed_is_idempotent_witness:
  "onTargetDestroyed killByMe (onTargetDestroyed killByMe readyClient)
     = onTargetDestroyed killByMe readyClient
   \<and> score readyClient = 0
   \<and> score (onTargetDestroyed killByMe readyClient) = 50
   \<and> score (onTargetDestroyed killByMe (onTargetDestroyed killByMe readyClient)) = 50
   \<and> score (onTargetDestroyed killByOther readyClient) = 0
   \<and> onTargetDestroyed killByMe startClient = startClient
   \<and> (\<exists>tm'. targetManager (onTargetDestroyed killByMe readyClient) = Some tm' \<and> targets tm' = [])"
proof -
  note me = targetDestroyed_is_idempotent [of killByMe readyClient]
  note other = targetDestroyed_is_idempotent [of killByOther readyClient]
  note none = targetDestroyed_is_idempotent [of killByMe startClient]
  have tm: "targetManager readyClient = Some \<lparr>isModelLoaded = True, model = [], targets = [fadedCat]\<rparr>"
    "score readyClient = 0" "playerId readyClient = ''p1''" "targetManager startClient = None"
    by (simp_all add: readyClient_def startClient_def)
  have ex: "\<exists>tm. targetManager readyClient = Some tm \<and> ''a'' \<in> targetId ` set (targets tm)"
    by (simp add: tm fadedCat_def)
  have 1: "onTargetDestroyed killByMe (onTargetDestroyed killByMe readyClient)
     = onTargetDestroyed killByMe readyClient"
    using me by blast
  have 2: "score (onTargetDestroyed killByMe readyClient) = 50"
    using me ex tm by (simp add: killByMe_def)
  have 3: "score (onTargetDestroyed killByOther readyClient) = 0"
    using other tm by (simp add: killByOther_def)
  have 4: "onTargetDestroyed killByMe startClient = startClient"
    using none tm(4) by simp
  from me tm(1) have "\<exists>tm'. targetManager (onTargetDestroyed killByMe readyClient) = Some tm'
            \<and> targets tm' = filter (\<lambda>t. targetId t \<noteq> dd_targetId killByMe)
                 (targets \<lparr>isModelLoaded = True, model = [], targets = [fadedCat]\<rparr>)"
    by blast
  then have 5: "\<exists>tm'. targetManager (onTargetDestroyed killByMe readyClient) = Some tm' \<and> targets tm' = []"
    by (simp add: killByMe_def fadedCat_def)
  show ?thesis
    using 1 2 3 4 5 tm(2) by simp
qed

subsection \<open>gameStateReceived\<close>

lemma createFromSnapshot_loaded:
  "isModelLoaded (createFromSnapshot d tm) = isModelLoaded tm"
  by (simp add: createFromSnapshot_def createTarget_def setUserData_def Let_def)

lemma createFromSnapshot_targets:
  assumes "isModelLoaded tm"
  shows "map localView (targets (createFromSnapshot d tm)) =
           map localView (targets tm) @ (if td_isAlive d then [serverView d] else [])"
    and "list_all (\<lambda>t. \<not> locallyDestroyed t) (targets tm) \<Longrightarrow>
         list_all (\<lambda>t. \<not> locallyDestroyed t) (targets (createFromSnapshot d tm))"
  using assms
  by (simp_all add: createFromSnapshot_def createTarget_def setUserData_def Let_def localView_def
      serverView_def)

lemma fold_createFromSnapshot:
  assumes "isModelLoaded tm"
  shows "isModelLoaded (fold createFromSnapshot ds tm)
       \<and> map localView (targets (fold createFromSnapshot ds tm)) =
           map localView (targets tm) @ map serverView (filter td_isAlive ds)
       \<and> (list_all (\<lambda>t. \<not> locallyDestroyed t) (targets tm) \<longrightarrow>
            list_all (\<lambda>t. \<not> locallyDestroyed t) (targets (fold createFromSnapshot ds tm)))"
  using assms
proof (induction ds arbitrary: tm)
  case Nil
  then show ?case by simp
next
  case (Cons d ds)
  have l: "isModelLoaded (createFromSnapshot d tm)"
    using Cons.prems by (simp add: createFromSnapshot_loaded)
  show ?case
    using Cons.IH [OF l] createFromSnapshot_targets [OF Cons.prems, of d] by auto
qed

lemma processGameState_ready:
  assumes "pendingGameState s = Some g" and "targetManager s = Some tm" and "isModelLoaded tm"
  shows "\<exists>tm'. targetManager (processGameState s) = Some tm'
           \<and> map localView (targets tm') = map serverView (filter td_isAlive (gs_targets g))
           \<and> list_all (\<lambda>t. \<not> locallyDestroyed t) (targets tm')"
    and "pendingGameState (processGameState s) = None"
proof -
  have c: "isModelLoaded (clearAllTargets tm)" "targets (clearAllTargets tm) = []"
    using assms(3) by (simp_all add: clearAllTargets_def)
  note f = fold_createFromSnapshot [OF c(1), of "gs_targets g"]
  show "\<exists>tm'. targetManager (processGameState s) = Some tm'
           \<and> map localView (targets tm') = map serverView (filter td_isAlive (gs_targets g))
           \<and> list_all (\<lambda>t. \<not> locallyDestroyed t) (targets tm')"
  proof (cases "gs_targets g = []")
    case True
    then show ?thesis
      using assms c by (simp add: processGameState_def Let_def)
  next
    case False
    then show ?thesis
      using assms c f by (simp add: processGameState_def Let_def setTimeout_def)
  qed
  show "pendingGameState (processGameState s) = None"
    using assms by (simp add: processGameState_def Let_def setTimeout_def)
qed

text \<open>
  C1. With a snapshot pending: while the target manager is missing, \<^verbatim>\<open>processGameState\<close>
  only schedules itself again 100 ms later; while the manager exists but its model is not
  loaded, it only schedules itself again 200 ms later; in both cases targets and snapshot
  are untouched. Once the manager exists and the model is loaded, it clears the local
  targets and creates one target for each snapshot entry whose \<^verbatim>\<open>isAlive\<close> is true, in
  order, with the identifier, health, points and position of the entry, so the local
  identifiers are those of the alive entries whatever the targets were before; none is
  marked locally destroyed, and the snapshot is no longer pending.
\<close>

theorem snapshot_resynchronises_targets:
  assumes "pendingGameState s = Some g"
  shows "(targetManager s = None \<longrightarrow>
            processGameState s = s\<lparr>timers := timers s @ [(now s + 100, ProcessGameState)]\<rparr>)
       \<and> (\<forall>tm. targetManager s = Some tm \<and> \<not> isModelLoaded tm \<longrightarrow>
            processGameState s = s\<lparr>timers := timers s @ [(now s + 200, ProcessGameState)]\<rparr>)
       \<and> (\<forall>tm. targetManager s = Some tm \<and> isModelLoaded tm \<longrightarrow>
            (\<exists>tm'. targetManager (processGameState s) = Some tm'
               \<and> map localView (targets tm') = map serverView (filter td_isAlive (gs_targets g))
               \<and> targetId ` set (targets tm') = td_id ` {d \<in> set (gs_targets g). td_isAlive d}
               \<and> list_all (\<lambda>t. \<not> locallyDestroyed t) (targets tm'))
            \<and> pendingGameState (processGameState s) = None)"
proof -
  have 1: "processGameState s = s\<lparr>timers := timers s @ [(now s + 100, ProcessGameState)]\<rparr>"
    if "targetManager s = None"
    using assms that by (simp add: processGameState_def setTimeout_def)
  have 2: "processGameState s = s\<lparr>timers := timers s @ [(now s + 200, ProcessGameState)]\<rparr>"
    if "targetManager s = Some tm \<and> \<not> isModelLoaded tm" for tm
    using assms that by (simp add: processGameState_def setTimeout_def)
  have 3: "(\<exists>tm'. targetManager (processGameState s) = Some tm'
               \<and> map localView (targets tm') = map serverView (filter td_isAlive (gs_targets g))
               \<and> targetId ` set (targets tm') = td_id ` {d \<in> set (gs_targets g). td_isAlive d}
               \<and> list_all (\<lambda>t. \<not> locallyDestroyed t) (targets tm'))
            \<and> pendingGameState (processGameState s) = None"
    if r: "targetManager s = Some tm \<and> isModelLoaded tm" for tm
  proof -
    from processGameState_ready(1) [OF assms] r
    obtain tm' where tm': "targetManager (processGameState s) = Some tm'"
      "map localView (targets tm') = map serverView (filter td_isAlive (gs_targets g))"
      "list_all (\<lambda>t. \<not> locallyDestroyed t) (targets tm')"
      by blast
    have "map fst (map localView (targets tm')) = map fst (map serverView (filter td_isAlive (gs_targets g)))"
      using tm'(2) by simp
    then have "map targetId (targets tm') = map td_id (filter td_isAlive (gs_targets g))"
      by (simp add: localView_def serverView_def comp_def)
    then have "set (map targetId (targets tm')) = set (map td_id (filter td_isAlive (gs_targets g)))"
      by simp
    then have ids: "targetId ` set (targets tm') = td_id ` {d \<in> set (gs_targets g). td_isAlive d}"
      by simp
    show ?thesis
      using tm' ids processGameState_ready(2) [OF assms] r by blast
  qed
  show ?thesis
    using 1 2 3 by blast
qed

theorem snapshot_resynchronises_targets_witness:
  "pendingGameState (readyClient\<lparr>pendingGameState := Some joinSnapshot\<rparr>) = Some joinSnapshot
   \<and> pendingGameState (startClient\<lparr>pendingGameState := Some joinSnapshot\<rparr>) = Some joinSnapshot
   \<and> targetManager startClient = None
   \<and> processGameState (startClient\<lparr>pendingGameState := Some joinSnapshot\<rparr>)
       = startClient\<lparr>pendingGameState := Some joinSnapshot, timers := [(100, ProcessGameState)]\<rparr>
   \<and> (\<exists>tm'. targetManager (processGameState (readyClient\<lparr>pendingGameState := Some joinSnapshot\<rparr>))
                = Some tm'
          \<and> map localView (targets tm') =
               [(''b'', 7, 50, (1, 0, 0)), (''d'', 10, 20, (3, 0, 0))]
          \<and> targetId ` set (targets tm') = {''b'', ''d''})
   \<and> pendingGameState (processGameState (readyClient\<lparr>pendingGameState := Some joinSnapshot\<rparr>)) = None"
proof -
  let ?r = "readyClient\<lparr>pendingGameState := Some joinSnapshot\<rparr>"
  let ?w = "startClient\<lparr>pendingGameState := Some joinSnapshot\<rparr>"
  have hr: "pendingGameState ?r = Some joinSnapshot" and hw: "pendingGameState ?w = Some joinSnapshot"
    by simp_all
  have tmr: "targetManager ?r = Some \<lparr>isModelLoaded = True, model = [], targets = [fadedCat]\<rparr>
             \<and> isModelLoaded \<lparr>isModelLoaded = True, model = [], targets = [fadedCat]\<rparr>"
    by (simp add: readyClient_def)
  have tmw: "targetManager ?w = None" "targetManager startClient = None"
    by (simp_all add: startClient_def)
  have alive: "map serverView (filter td_isAlive (gs_targets joinSnapshot))
               = [(''b'', 7, 50, (1, 0, 0)), (''d'', 10, 20, (3, 0, 0))]"
    by (simp add: joinSnapshot_def serverView_def)
  have "td_id ` set (filter td_isAlive (gs_targets joinSnapshot)) = {''b'', ''d''}"
    by (simp add: joinSnapshot_def)
  then have ids: "td_id ` {d \<in> set (gs_targets joinSnapshot). td_isAlive d} = {''b'', ''d''}"
    by (simp only: set_filter)
  from snapshot_resynchronises_targets [OF hw] tmw
  have 1: "processGameState ?w = ?w\<lparr>timers := timers ?w @ [(now ?w + 100, ProcessGameState)]\<rparr>"
    by blast
  from snapshot_resynchronises_targets [OF hr] tmr
  have 2: "(\<exists>tm'. targetManager (processGameState ?r) = Some tm'
               \<and> map localView (targets tm') = map serverView (filter td_isAlive (gs_targets joinSnapshot))
               \<and> targetId ` set (targets tm') = td_id ` {d \<in> set (gs_targets joinSnapshot). td_isAlive d}
               \<and> list_all (\<lambda>t. \<not> locallyDestroyed t) (targets tm'))
            \<and> pendingGameState (processGameState ?r) = None"
    by blast
  have w1: "processGameState ?w
       = startClient\<lparr>pendingGameState := Some joinSnapshot, timers := [(100, ProcessGameState)]\<rparr>"
    unfolding 1 by (simp add: startClient_def)
  from 2 obtain tm' where t: "targetManager (processGameState ?r) = Some tm'"
      "map localView (targets tm') = map serverView (filter td_isAlive (gs_targets joinSnapshot))"
      "targetId ` set (targets tm') = td_id ` {d \<in> set (gs_targets joinSnapshot). td_isAlive d}"
    and p: "pendingGameState (processGameState ?r) = None"
    by blast
  have e: "\<exists>tm'. targetManager (processGameState ?r) = Some tm'
          \<and> map localView (targets tm') =
               [(''b'', 7, 50, (1, 0, 0)), (''d'', 10, 20, (3, 0, 0))]
          \<and> targetId ` set (targets tm') = {''b'', ''d''}"
    using t unfolding alive ids by (intro exI conjI)
  show ?thesis
    using w1 e p hr hw tmw(2) by (intro conjI)
qed

subsection \<open>Retry polling\<close>

lemma nextTimer_single: "nextTimer [t] = Some t"
  by (simp add: nextTimer_def)

lemma retry_step:
  assumes "pendingGameState s = Some g"
    and "targetManager s = None \<or> (\<exists>tm. targetManager s = Some tm \<and> \<not> isModelLoaded tm)"
    and "timers s = [(due, ProcessGameState)]" and "now s \<le> due"
  shows "fireTimer s = s\<lparr>now := due,
           timers := [(due + (if targetManager s = None then 100 else 200), ProcessGameState)]\<rparr>"
  using assms
  by (auto simp: fireTimer_def nextTimer_single processGameState_def setTimeout_def max_def)

lemma retry_steps:
  assumes "pendingGameState s = Some g"
    and "targetManager s = None \<or> (\<exists>tm. targetManager s = Some tm \<and> \<not> isModelLoaded tm)"
    and "timers s = [(due, ProcessGameState)]" and "now s \<le> due"
  shows "timers ((fireTimer ^^ n) s) =
           [(due + n * (if targetManager s = None then 100 else 200), ProcessGameState)]
       \<and> pendingGameState ((fireTimer ^^ n) s) = Some g
       \<and> targetManager ((fireTimer ^^ n) s) = targetManager s
       \<and> now ((fireTimer ^^ n) s) \<le> due + n * (if targetManager s = None then 100 else 200)"
proof (induction n)
  case 0
  then show ?case using assms by simp
next
  case (Suc n)
  let ?sn = "(fireTimer ^^ n) s"
  let ?d = "if targetManager s = None then 100 else 200 :: nat"
  have a: "pendingGameState ?sn = Some g"
    and b: "targetManager ?sn = None \<or> (\<exists>tm. targetManager ?sn = Some tm \<and> \<not> isModelLoaded tm)"
    and c: "timers ?sn = [(due + n * ?d, ProcessGameState)]"
    and d: "now ?sn \<le> due + n * ?d"
    using Suc.IH assms(2) by simp_all
  have "fireTimer ?sn = ?sn\<lparr>now := due + n * ?d,
           timers := [(due + n * ?d + (if targetManager ?sn = None then 100 else 200), ProcessGameState)]\<rparr>"
    by (rule retry_step [OF a b c d])
  then show ?case
    using Suc.IH by (simp add: algebra_simps)
qed

text \<open>
  C9, as amended. The retry polling has no bound: with a snapshot pending, the target
  manager missing (or its model not loaded) and one retry scheduled, after any number
  \<open>n\<close> of timer firings exactly one retry is scheduled again, 100 ms (200 ms) after the
  previous one, the snapshot is still pending and the manager is as it was.
\<close>

theorem retry_polling_never_gives_up:
  assumes "pendingGameState s = Some g"
    and "targetManager s = None \<or> (\<exists>tm. targetManager s = Some tm \<and> \<not> isModelLoaded tm)"
    and "timers s = [(due, ProcessGameState)]" and "now s \<le> due"
  shows "timers ((fireTimer ^^ n) s) =
           [(due + n * (if targetManager s = None then 100 else 200), ProcessGameState)]
       \<and> pendingGameState ((fireTimer ^^ n) s) = Some g
       \<and> targetManager ((fireTimer ^^ n) s) = targetManager s"
  using retry_steps [OF assms, of n] by simp

lemma waitingClient_simps:
  "pendingGameState waitingClient = Some joinSnapshot"
  "targetManager waitingClient = None"
  "timers waitingClient = [(100, ProcessGameState)]"
  "now waitingClient = 0"
  by (simp_all add: waitingClient_def onGameStateReceived_def processGameState_def setTimeout_def
      startClient_def)

theorem retry_polling_never_gives_up_witness:
  "pendingGameState waitingClient = Some joinSnapshot
   \<and> targetManager waitingClient = None
   \<and> timers waitingClient = [(100, ProcessGameState)]
   \<and> now waitingClient \<le> 100
   \<and> timers ((fireTimer ^^ 1000) waitingClient) = [(100100, ProcessGameState)]
   \<and> pendingGameState ((fireTimer ^^ 1000) waitingClient) = Some joinSnapshot"
proof -
  have h2: "targetManager waitingClient = None
            \<or> (\<exists>tm. targetManager waitingClient = Some tm \<and> \<not> isModelLoaded tm)"
    and h4: "now waitingClient \<le> 100"
    by (simp_all add: waitingClient_simps)
  from retry_polling_never_gives_up [OF waitingClient_simps(1) h2 waitingClient_simps(3) h4, of 1000]
  have "timers ((fireTimer ^^ 1000) waitingClient) = [(100100, ProcessGameState)]
        \<and> pendingGameState ((fireTimer ^^ 1000) waitingClient) = Some joinSnapshot"
    by (simp add: waitingClient_simps(2))
  then show ?thesis
    using waitingClient_simps h4 by simp
qed

text \<open>
  The claim as stated fails: for a snapshot received before the target manager exists, no
  number of retries ends with no retry scheduled.
\<close>

theorem retry_polling_bounded_counterexample:
  "\<not> (\<exists>N. timers ((fireTimer ^^ N) (onGameStateReceived joinSnapshot startClient)) = [])"
proof
  assume "\<exists>N. timers ((fireTimer ^^ N) (onGameStateReceived joinSnapshot startClient)) = []"
  then obtain N where n: "timers ((fireTimer ^^ N) waitingClient) = []"
    by (auto simp: waitingClient_def)
  have h2: "targetManager waitingClient = None
            \<or> (\<exists>tm. targetManager waitingClient = Some tm \<and> \<not> isModelLoaded tm)"
    and h4: "now waitingClient \<le> 100"
    by (simp_all add: waitingClient_simps)
  from retry_steps [OF waitingClient_simps(1) h2 waitingClient_simps(3) h4, of N] n
  show False by simp
qed

end
